theory Spec2Isabelle
  imports Main "HOL-Library.AList"
begin

section \<open>Values exchanged with the Unity Editor\<close>

text \<open>
  The server of \<^verbatim>\<open>unity-mcp-server/src/index.ts\<close> receives frames that have been
  decoded by \<^verbatim>\<open>JSON.parse\<close>. A decoded value is one of the six JSON kinds. An object is
  the list of its own properties in enumeration order; numbers are restricted to
  integers, of which the code only reads the truth value and, for \<^verbatim>\<open>count\<close>, the value.

  A JavaScript string is a sequence of UTF-16 code units. A \<^typ>\<open>string\<close> of the model is
  such a sequence over the code units U+0000 to U+00FF, one \<^typ>\<open>char\<close> for each code
  unit (\<^term>\<open>CHR 0xA0\<close> is the no-break space); a string with a code unit above U+00FF
  is not a value of the model.
\<close>

datatype json =
    JNull
  | JBool bool
  | JNum int
  | JStr string
  | JArr "json list"
  | JObj "(string \<times> json) list"

text \<open>JavaScript truthiness, as used by \<^verbatim>\<open>||\<close>, \<^verbatim>\<open>&&\<close> and \<^verbatim>\<open>if\<close>.\<close>

fun truthy :: "json \<Rightarrow> bool" where
  "truthy JNull = False"
| "truthy (JBool b) = b"
| "truthy (JNum n) = (n \<noteq> 0)"
| "truthy (JStr s) = (s \<noteq> [])"
| "truthy (JArr xs) = True"
| "truthy (JObj ps) = True"

text \<open>
  \<^verbatim>\<open>x || d\<close> where \<^verbatim>\<open>x\<close> is a property read: \<^term>\<open>None\<close> stands for \<^verbatim>\<open>undefined\<close>.
\<close>

definition or_default :: "json option \<Rightarrow> json \<Rightarrow> json" where
  "or_default x d = (case x of None \<Rightarrow> d | Some v \<Rightarrow> if truthy v then v else d)"

datatype js_error = TypeError

text \<open>
  Reading one of the named properties of the snapshot payload (\<^verbatim>\<open>message.data.p\<close>).
  On \<^verbatim>\<open>null\<close> the read throws; on an object it is the own property; the property
  names read by the handler are defined on no primitive and on no array.
\<close>

fun own_prop :: "json \<Rightarrow> string \<Rightarrow> json option" where
  "own_prop (JObj ps) p = map_of ps p"
| "own_prop v p = None"

definition get_prop :: "json \<Rightarrow> string \<Rightarrow> js_error + json option" where
  "get_prop d p = (if d = JNull then Inl TypeError else Inr (own_prop d p))"

text \<open>Decimal rendering of an array index, for \<^verbatim>\<open>Object.keys\<close> of an array.\<close>

definition digit :: "nat \<Rightarrow> char" where
  "digit d = char_of (48 + d)"

fun decimal :: "nat \<Rightarrow> string" where
  "decimal n = (if n < 10 then [digit n] else decimal (n div 10) @ [digit (n mod 10)])"

declare decimal.simps [simp del]

text \<open>
  The own enumerable properties of a value, as \<^verbatim>\<open>Object.keys(v)\<close> and \<^verbatim>\<open>v[key]\<close>
  see them: the entries of an object, the indexed elements of an array, the indexed
  characters of a string, nothing for a number or a boolean.
\<close>

fun own_props :: "json \<Rightarrow> (string \<times> json) list" where
  "own_props (JObj ps) = ps"
| "own_props (JArr xs) = zip (map decimal [0..<length xs]) xs"
| "own_props (JStr s) = zip (map decimal [0..<length s]) (map (\<lambda>c. JStr [c]) s)"
| "own_props v = []"

definition object_keys :: "json \<Rightarrow> string list" where
  "object_keys v = map fst (own_props v)"

text \<open>\<^verbatim>\<open>Array.isArray\<close>.\<close>

fun isArray :: "json \<Rightarrow> bool" where
  "isArray (JArr xs) = True"
| "isArray v = False"

text \<open>\<^verbatim>\<open>String.prototype.startsWith\<close> and \<^verbatim>\<open>String.prototype.includes\<close>.\<close>

fun startsWith :: "string \<Rightarrow> string \<Rightarrow> bool" where
  "startsWith s [] = True"
| "startsWith [] (p # ps) = False"
| "startsWith (c # cs) (p # ps) = (c = p \<and> startsWith cs ps)"

fun str_includes :: "string \<Rightarrow> string \<Rightarrow> bool" where
  "str_includes [] sub = (sub = [])"
| "str_includes (c # cs) sub = (startsWith (c # cs) sub \<or> str_includes cs sub)"

text \<open>
  \<^verbatim>\<open>o[key] = v\<close> on a plain object: an existing own property is overwritten in place, a
  new one is appended. The name \<^verbatim>\<open>__proto__\<close> is special in JavaScript: the assignment
  invokes the prototype setter and creates no own property.
\<close>

definition set_prop :: "string \<Rightarrow> json \<Rightarrow> (string \<times> json) list \<Rightarrow> (string \<times> json) list" where
  "set_prop k v obj = (if k = ''__proto__'' then obj else AList.update k v obj)"


section \<open>The server state\<close>

record UnityEditorState =
  activeGameObjects :: json
  selectedObjects :: json
  playModeState :: json
  sceneHierarchy :: json
  projectStructure :: "(string \<times> json) list"

record LogEntry =
  message :: string
  stackTrace :: string
  logType :: string
  timestamp :: string

datatype ErrorCode = InternalError | MethodNotFound | InvalidParams

text \<open>The result of \<^verbatim>\<open>filterLogs\<close>: the entries themselves, or their projections.\<close>

datatype log_result =
    Entries "LogEntry list"
  | Projected "(string \<times> string) list list"

text \<open>
  What a tool call answers: a thrown \<^verbatim>\<open>McpError\<close>, or the value that the handler
  passes to \<^verbatim>\<open>JSON.stringify\<close> for its \<^verbatim>\<open>content\<close>.
\<close>

datatype response =
    McpError ErrorCode string
  | EditorStateResponse json
  | CommandResponse json "LogEntry list" int
  | LogsResponse log_result

text \<open>
  One call of \<^verbatim>\<open>execute_editor_command\<close> that has reached its \<^verbatim>\<open>await\<close>: the index
  it read from the log buffer, the time at which its 5000 ms timer fires, and what the
  \<^verbatim>\<open>Promise.race\<close> has led the handler to answer (\<^term>\<open>None\<close> while it is pending).
\<close>

record call =
  startLogIndex :: nat
  deadline :: nat
  outcome :: "response option"

text \<open>
  The fields of \<^verbatim>\<open>UnityMCPServer\<close>, followed by the environment: the clock read by
  \<^verbatim>\<open>Date.now()\<close>, the frames handed to \<^verbatim>\<open>send\<close> with the socket they went to, and the
  suspended calls. A socket is named by a number. \<^verbatim>\<open>commandResultPromise\<close> holds the
  \<^verbatim>\<open>resolve\<close>/\<^verbatim>\<open>reject\<close> pair of one call's promise, named by the call's position in
  \<^term>\<open>calls\<close>.
\<close>

record server =
  unityConnection :: "nat option"
  editorState :: UnityEditorState
  logBuffer :: "LogEntry list"
  maxLogBufferSize :: nat
  commandResultPromise :: "nat option"
  commandStartTime :: "nat option"
  clock :: nat
  sent :: "(nat \<times> string) list"
  calls :: "call list"

definition initialEditorState :: UnityEditorState where
  "initialEditorState =
     \<lparr>activeGameObjects = JArr [], selectedObjects = JArr [],
      playModeState = JStr ''Stopped'', sceneHierarchy = JObj [],
      projectStructure = []\<rparr>"

definition init :: server where
  "init =
     \<lparr>unityConnection = None, editorState = initialEditorState, logBuffer = [],
      maxLogBufferSize = 1000, commandResultPromise = None, commandStartTime = None,
      clock = 0, sent = [], calls = []\<rparr>"


section \<open>Inbound frames\<close>

text \<open>
  A decoded frame, by its \<^verbatim>\<open>type\<close> discriminant, with its \<^verbatim>\<open>data\<close>. The payload of
  a log frame is taken at the type \<^verbatim>\<open>LogEntry\<close> that \<^verbatim>\<open>handleLogMessage\<close> declares; the
  payload of an \<^verbatim>\<open>editorState\<close> frame is any decoded value, a frame without \<^verbatim>\<open>data\<close>
  being read like one whose \<^verbatim>\<open>data\<close> is \<^verbatim>\<open>null\<close> (the first property read throws in
  both).
\<close>

datatype unity_message =
    EditorStateMessage json
  | CommandResultMessage json
  | LogMessage LogEntry
  | UnknownMessage string

text \<open>
  The filter of one asset category: \<^verbatim>\<open>path.startsWith\<close> throws on an element that is
  not a string.
\<close>

fun filter_paths :: "json list \<Rightarrow> js_error + json list" where
  "filter_paths [] = Inr []"
| "filter_paths (JStr p # rest) =
     (case filter_paths rest of
        Inl e \<Rightarrow> Inl e
      | Inr kept \<Rightarrow> Inr (if \<not> startsWith p ''Packages/'' then JStr p # kept else kept))"
| "filter_paths (v # rest) = Inl TypeError"

text \<open>
  The \<^verbatim>\<open>forEach\<close> over \<^verbatim>\<open>Object.keys(message.data.projectStructure)\<close>, filling
  \<^verbatim>\<open>filteredData.projectStructure\<close>.
\<close>

fun filterProjectStructure ::
  "json \<Rightarrow> string list \<Rightarrow> (string \<times> json) list \<Rightarrow> js_error + (string \<times> json) list" where
  "filterProjectStructure ps [] acc = Inr acc"
| "filterProjectStructure ps (key # keys) acc =
     (case map_of (own_props ps) key of
        Some (JArr paths) \<Rightarrow>
          (case filter_paths paths of
             Inl e \<Rightarrow> Inl e
           | Inr kept \<Rightarrow> filterProjectStructure ps keys (set_prop key (JArr kept) acc))
      | _ \<Rightarrow> filterProjectStructure ps keys acc)"

text \<open>The \<^verbatim>\<open>editorState\<close> case: the simplified state built from \<^verbatim>\<open>message.data\<close>.\<close>

definition filteredData :: "json \<Rightarrow> js_error + UnityEditorState" where
  "filteredData d =
     (case get_prop d ''activeGameObjects'' of
        Inl e \<Rightarrow> Inl e
      | Inr ago \<Rightarrow>
     (case get_prop d ''selectedObjects'' of
        Inl e \<Rightarrow> Inl e
      | Inr so \<Rightarrow>
     (case get_prop d ''playModeState'' of
        Inl e \<Rightarrow> Inl e
      | Inr pms \<Rightarrow>
     (case get_prop d ''sceneHierarchy'' of
        Inl e \<Rightarrow> Inl e
      | Inr sh \<Rightarrow>
     (case get_prop d ''projectStructure'' of
        Inl e \<Rightarrow> Inl e
      | Inr pso \<Rightarrow>
     (case (case pso of
              None \<Rightarrow> Inr []
            | Some ps \<Rightarrow>
                if truthy ps then filterProjectStructure ps (object_keys ps) [] else Inr [])
      of
        Inl e \<Rightarrow> Inl e
      | Inr structure \<Rightarrow>
          Inr \<lparr>activeGameObjects = or_default ago (JArr []),
               selectedObjects = or_default so (JArr []),
               playModeState = or_default pms (JStr ''Stopped''),
               sceneHierarchy = or_default sh (JObj []),
               projectStructure = structure\<rparr>))))))"

definition handleLogMessage :: "LogEntry \<Rightarrow> server \<Rightarrow> server" where
  "handleLogMessage logEntry s =
     (let pushed = logBuffer s @ [logEntry]
      in s\<lparr>logBuffer := (if length pushed > maxLogBufferSize s then tl pushed else pushed)\<rparr>)"

text \<open>
  What the handler of a resumed call answers once its promise is resolved with
  \<^verbatim>\<open>result\<close>: the result, the tagged entries of \<^verbatim>\<open>logBuffer.slice(startLogIndex)\<close> and
  \<^verbatim>\<open>Date.now() - this.commandStartTime\<close> (\<^verbatim>\<open>null\<close> counts as 0).
\<close>

definition commandSuccess :: "server \<Rightarrow> call \<Rightarrow> json \<Rightarrow> response" where
  "commandSuccess s c result =
     CommandResponse result
       (filter (\<lambda>log. str_includes (message log) ''[UnityMCP]'') (drop (startLogIndex c) (logBuffer s)))
       (int (clock s) - (case commandStartTime s of None \<Rightarrow> 0 | Some t \<Rightarrow> int t))"

text \<open>
  Resolving the promise of call \<open>k\<close>: the race is decided only if it is still pending,
  and the awaiting handler then runs before any other event.
\<close>

definition resolveCall :: "nat \<Rightarrow> json \<Rightarrow> server \<Rightarrow> server" where
  "resolveCall k result s =
     (if k < length (calls s) \<and> outcome (calls s ! k) = None
      then s\<lparr>calls := (calls s)[k := (calls s ! k)\<lparr>outcome := Some (commandSuccess s (calls s ! k) result)\<rparr>]\<rparr>
      else s)"

fun handleUnityMessage :: "unity_message \<Rightarrow> server \<Rightarrow> js_error + server" where
  "handleUnityMessage (EditorStateMessage d) s =
     (case filteredData d of
        Inl e \<Rightarrow> Inl e
      | Inr fd \<Rightarrow> Inr (s\<lparr>editorState := fd\<rparr>))"
| "handleUnityMessage (CommandResultMessage d) s =
     (case commandResultPromise s of
        Some k \<Rightarrow> Inr ((resolveCall k d s)\<lparr>commandResultPromise := None\<rparr>)
      | None \<Rightarrow> Inr s)"
| "handleUnityMessage (LogMessage logEntry) s = Inr (handleLogMessage logEntry s)"
| "handleUnityMessage (UnknownMessage t) s = Inr s"

text \<open>
  The socket's handlers. An exception of \<^verbatim>\<open>handleUnityMessage\<close> is caught and logged;
  the fields assigned before it was thrown keep their values (none is, in the
  \<^verbatim>\<open>editorState\<close> case).
\<close>

definition on_message :: "unity_message \<Rightarrow> server \<Rightarrow> server" where
  "on_message m s = (case handleUnityMessage m s of Inl e \<Rightarrow> s | Inr s' \<Rightarrow> s')"

definition on_connection :: "nat \<Rightarrow> server \<Rightarrow> server" where
  "on_connection ws s = s\<lparr>unityConnection := Some ws\<rparr>"

definition on_close :: "server \<Rightarrow> server" where
  "on_close s = s\<lparr>unityConnection := None\<rparr>"


section \<open>Tool calls\<close>

text \<open>
  The arguments of \<^verbatim>\<open>get_logs\<close> and the options of \<^verbatim>\<open>filterLogs\<close>, at their declared
  types; \<^term>\<open>None\<close> is an absent (\<^verbatim>\<open>undefined\<close>) option. The option \<^verbatim>\<open>fields\<close> is
  the field \<open>fields_opt\<close>.
\<close>

record LogOptions =
  types :: "string list option"
  count :: "int option"
  fields_opt :: "string list option"
  messageContains :: "string option"
  stackTraceContains :: "string option"
  timestampAfter :: "string option"
  timestampBefore :: "string option"

text \<open>
  A \<^verbatim>\<open>CallToolRequest\<close>: the tool's name with the arguments that the handler reads
  (\<^verbatim>\<open>format\<close> at its declared type, \<^verbatim>\<open>code\<close> as the untyped value that the handler
  checks), or a name that is not a tool's.
\<close>

datatype request =
    GetEditorState "string option"
  | ExecuteEditorCommand "json option"
  | GetLogs LogOptions
  | UnknownTool string

text \<open>The handler's promise: settled at once, or suspended at the \<^verbatim>\<open>await\<close> of a call.\<close>

datatype reply = Returned response | Suspended nat

text \<open>
  \<^verbatim>\<open>Array.prototype.slice(start)\<close> with one argument: a negative start counts from the
  end.
\<close>

definition js_slice :: "int \<Rightarrow> 'a list \<Rightarrow> 'a list" where
  "js_slice start xs =
     (if start < 0 then drop (nat (max (int (length xs) + start) 0)) xs
      else drop (min (nat start) (length xs)) xs)"

text \<open>
  \<^verbatim>\<open>new Date(a) < new Date(b)\<close>. The parser of \<^verbatim>\<open>Date\<close> is a parameter \<open>date\<close> of the
  model, giving the time value of a string or \<^term>\<open>None\<close> for an invalid date, whose
  comparisons are all false.
\<close>

definition date_less :: "(string \<Rightarrow> int option) \<Rightarrow> string \<Rightarrow> string \<Rightarrow> bool" where
  "date_less date a b =
     (case date a of
        None \<Rightarrow> False
      | Some x \<Rightarrow> (case date b of None \<Rightarrow> False | Some y \<Rightarrow> x < y))"

text \<open>The predicate of the \<^verbatim>\<open>filter\<close> in \<^verbatim>\<open>filterLogs\<close>, test by test.\<close>

definition logMatches :: "(string \<Rightarrow> int option) \<Rightarrow> LogOptions \<Rightarrow> LogEntry \<Rightarrow> bool" where
  "logMatches date options log =
     (if (case types options of None \<Rightarrow> False | Some ts \<Rightarrow> \<not> List.member ts (logType log))
        then False
      else if (case messageContains options of
                 None \<Rightarrow> False
               | Some m \<Rightarrow> m \<noteq> [] \<and> \<not> str_includes (message log) m)
        then False
      else if (case stackTraceContains options of
                 None \<Rightarrow> False
               | Some m \<Rightarrow> m \<noteq> [] \<and> \<not> str_includes (stackTrace log) m)
        then False
      else if (case timestampAfter options of
                 None \<Rightarrow> False
               | Some t \<Rightarrow> t \<noteq> [] \<and> date_less date (timestamp log) t)
        then False
      else if (case timestampBefore options of
                 None \<Rightarrow> False
               | Some t \<Rightarrow> t \<noteq> [] \<and> date_less date t (timestamp log))
        then False
      else True)"

text \<open>The read \<^verbatim>\<open>log[field]\<close> of one of the four fields of an entry.\<close>

definition logField :: "LogEntry \<Rightarrow> string \<Rightarrow> string option" where
  "logField log field =
     (if field = ''message'' then Some (message log)
      else if field = ''stackTrace'' then Some (stackTrace log)
      else if field = ''logType'' then Some (logType log)
      else if field = ''timestamp'' then Some (timestamp log)
      else None)"

fun selectFields :: "string list \<Rightarrow> LogEntry \<Rightarrow> (string \<times> string) list \<Rightarrow> (string \<times> string) list" where
  "selectFields [] log selectedFields = selectedFields"
| "selectFields (field # rest) log selectedFields =
     (case logField log field of
        Some v \<Rightarrow> selectFields rest log (AList.update field v selectedFields)
      | None \<Rightarrow> selectFields rest log selectedFields)"

definition filterLogs :: "(string \<Rightarrow> int option) \<Rightarrow> LogOptions \<Rightarrow> server \<Rightarrow> log_result" where
  "filterLogs date options s =
     (let n = (case count options of None \<Rightarrow> 100 | Some c \<Rightarrow> c);
          filteredLogs = js_slice (- n) (filter (logMatches date options) (logBuffer s))
      in case fields_opt options of
           None \<Rightarrow> Entries filteredLogs
         | Some fs \<Rightarrow>
             if fs \<noteq> [] then Projected (map (\<lambda>log. selectFields fs log []) filteredLogs)
             else Entries filteredLogs)"

text \<open>The values of \<^verbatim>\<open>responseData\<close> in \<^verbatim>\<open>get_editor_state\<close>.\<close>

definition stateJson :: "UnityEditorState \<Rightarrow> (string \<times> json) list \<Rightarrow> json" where
  "stateJson es structure =
     JObj [(''activeGameObjects'', activeGameObjects es),
           (''selectedObjects'', selectedObjects es),
           (''playModeState'', playModeState es),
           (''sceneHierarchy'', sceneHierarchy es),
           (''projectStructure'', JObj structure)]"

definition validFormats :: "string list" where
  "validFormats = [''Raw'', ''scripts only'', ''no scripts'']"

definition getEditorState :: "string option \<Rightarrow> server \<Rightarrow> response" where
  "getEditorState fmt s =
     (let given = (case fmt of None \<Rightarrow> False | Some f \<Rightarrow> f \<noteq> []);
          format = (if given then the fmt else ''Raw'');
          es = editorState s
      in if given \<and> \<not> List.member validFormats format
         then McpError InvalidParams
                (''Invalid format: '' @ [CHR 0x22] @ format @ [CHR 0x22]
                   @ ''. Valid formats are: Raw, scripts only, no scripts'')
         else if format = ''Raw'' then EditorStateResponse (stateJson es (projectStructure es))
         else if format = ''scripts only''
           then EditorStateResponse (or_default (map_of (projectStructure es) ''scripts'') (JArr []))
         else EditorStateResponse (stateJson es (AList.delete ''scripts'' (projectStructure es))))"

text \<open>
  \<^verbatim>\<open>String.prototype.trim\<close> removes the white space and the line terminators of
  ECMAScript from both ends. Among the code units U+0000 to U+00FF these are the
  space, the no-break space U+00A0, and U+0009 to U+000D (tab, line feed, vertical tab,
  form feed, carriage return); the others (U+1680, U+2000 to U+200A, U+2028, U+2029,
  U+202F, U+205F, U+3000, U+FEFF) are code units that \<^typ>\<open>char\<close> does not have.
\<close>

definition is_space :: "char \<Rightarrow> bool" where
  "is_space c =
     (c = CHR '' '' \<or> c = CHR 0xA0 \<or> ((9::nat) \<le> of_char c \<and> (of_char c :: nat) \<le> 13))"

definition trim :: "string \<Rightarrow> string" where
  "trim s = rev (dropWhile is_space (rev (dropWhile is_space s)))"

definition notConnectedMessage :: string where
  "notConnectedMessage =
     ''Unity Editor is not connected. Please ensure the Unity Editor is running and the UnityMCP window is open.''"

definition timeoutMs :: nat where
  "timeoutMs = 5000"

definition timeoutMessage :: string where
  "timeoutMessage =
     ''Command execution timed out after 5 seconds. This may indicate a long-running operation or an issue with the Unity Editor.''"

text \<open>
  The \<^verbatim>\<open>try\<close> block of \<^verbatim>\<open>execute_editor_command\<close> up to its \<^verbatim>\<open>await\<close>: the start index
  and time are read, the frame is sent on the connection \<open>ws\<close>, the timer is started,
  and the promise's \<^verbatim>\<open>resolve\<close>/\<^verbatim>\<open>reject\<close> pair is stored in \<^verbatim>\<open>commandResultPromise\<close>.
\<close>

definition dispatchCommand :: "nat \<Rightarrow> string \<Rightarrow> server \<Rightarrow> reply \<times> server" where
  "dispatchCommand ws code s =
     (let k = length (calls s);
          c = \<lparr>startLogIndex = length (logBuffer s), deadline = clock s + timeoutMs,
               outcome = None\<rparr>
      in (Suspended k,
          s\<lparr>commandStartTime := Some (clock s),
            sent := sent s @ [(ws, code)],
            commandResultPromise := Some k,
            calls := calls s @ [c]\<rparr>))"

definition executeEditorCommand :: "nat \<Rightarrow> json option \<Rightarrow> server \<Rightarrow> reply \<times> server" where
  "executeEditorCommand ws code s =
     (case code of
        None \<Rightarrow> (Returned (McpError InvalidParams ''The code parameter is required''), s)
      | Some v \<Rightarrow>
          if \<not> truthy v
            then (Returned (McpError InvalidParams ''The code parameter is required''), s)
          else (case v of
                  JStr c \<Rightarrow>
                    if length (trim c) = 0
                      then (Returned (McpError InvalidParams ''The code parameter cannot be empty''), s)
                    else dispatchCommand ws c s
                | _ \<Rightarrow> (Returned (McpError InvalidParams ''The code parameter must be a string''), s)))"

text \<open>The handler of \<^verbatim>\<open>CallToolRequestSchema\<close>.\<close>

definition callTool :: "(string \<Rightarrow> int option) \<Rightarrow> request \<Rightarrow> server \<Rightarrow> reply \<times> server" where
  "callTool date request s =
     (case unityConnection s of
        None \<Rightarrow> (Returned (McpError InternalError notConnectedMessage), s)
      | Some ws \<Rightarrow>
          (case request of
             UnknownTool name \<Rightarrow>
               (Returned (McpError MethodNotFound
                  (''Unknown tool: '' @ name
                     @ ''. Available tools are: get_editor_state, execute_editor_command, get_logs'')), s)
           | GetEditorState fmt \<Rightarrow> (Returned (getEditorState fmt s), s)
           | ExecuteEditorCommand code \<Rightarrow> executeEditorCommand ws code s
           | GetLogs args \<Rightarrow>
               (Returned (LogsResponse
                  (filterLogs date
                     (args\<lparr>count := Some (case count args of
                                            None \<Rightarrow> 100
                                          | Some c \<Rightarrow> if c = 0 then 100 else c)\<rparr>) s)), s)))"


section \<open>Timers\<close>

text \<open>
  The \<^verbatim>\<open>catch\<close> block of \<^verbatim>\<open>execute_editor_command\<close>, applied to the message of the
  caught \<^verbatim>\<open>Error\<close>.
\<close>

definition executeCatch :: "string \<Rightarrow> response" where
  "executeCatch msg =
     (if str_includes msg ''timed out'' then McpError InternalError msg
      else if str_includes msg ''NullReferenceException''
        then McpError InvalidParams
               ''The code attempted to access a null object. Please check that all GameObject references exist.''
      else if str_includes msg ''CompileError''
        then McpError InvalidParams ''C# compilation error. Please check the syntax of your code.''
      else McpError InternalError (''Failed to execute command: '' @ msg))"

text \<open>
  The timer of a call rejects the race with the time-out \<^verbatim>\<open>Error\<close>; a race that is
  already decided ignores it.
\<close>

definition fireTimer :: "nat \<Rightarrow> call \<Rightarrow> call" where
  "fireTimer now c =
     (if outcome c = None \<and> deadline c \<le> now
      then c\<lparr>outcome := Some (executeCatch timeoutMessage)\<rparr> else c)"

text \<open>The passing of \<open>d\<close> milliseconds: the timers that are due fire.\<close>

definition elapse :: "nat \<Rightarrow> server \<Rightarrow> server" where
  "elapse d s = s\<lparr>clock := clock s + d, calls := map (fireTimer (clock s + d)) (calls s)\<rparr>"


section \<open>Runs of the server\<close>

datatype event =
    Connection nat
  | Close
  | Message unity_message
  | CallTool request
  | Elapse nat

fun step :: "(string \<Rightarrow> int option) \<Rightarrow> event \<Rightarrow> server \<Rightarrow> server" where
  "step date (Connection ws) s = on_connection ws s"
| "step date Close s = on_close s"
| "step date (Message m) s = on_message m s"
| "step date (CallTool request) s = snd (callTool date request s)"
| "step date (Elapse d) s = elapse d s"

fun run :: "(string \<Rightarrow> int option) \<Rightarrow> event list \<Rightarrow> server \<Rightarrow> server" where
  "run date [] s = s"
| "run date (e # es) s = run date es (step date e s)"


text \<open>The run in which the given entries arrive as \<^verbatim>\<open>log\<close> frames, one after the other.\<close>

definition logFrames :: "LogEntry list \<Rightarrow> event list" where
  "logFrames es = map (\<lambda>e. Message (LogMessage e)) es"

fun isCommandResult :: "event \<Rightarrow> bool" where
  "isCommandResult (Message (CommandResultMessage d)) = True"
| "isCommandResult e = False"

text \<open>The call of \<^verbatim>\<open>execute_editor_command\<close> with a code string.\<close>

definition executeRequest :: "string \<Rightarrow> request" where
  "executeRequest code = ExecuteEditorCommand (Some (JStr code))"

text \<open>The arguments of \<^verbatim>\<open>get_logs\<close> when the caller gives none.\<close>

definition noOptions :: LogOptions where
  "noOptions =
     \<lparr>types = None, count = None, fields_opt = None, messageContains = None,
      stackTraceContains = None, timestampAfter = None, timestampBefore = None\<rparr>"

text \<open>
  A pending call whose timer has not fired: as long as no result frame arrives, it
  stays so until the clock reaches its deadline, and is then answered by the time-out
  error.
\<close>

definition awaiting :: "nat \<Rightarrow> nat \<Rightarrow> server \<Rightarrow> bool" where
  "awaiting k D s =
     (k < length (calls s) \<and> deadline (calls s ! k) = D \<and>
      (if clock s < D then outcome (calls s ! k) = None
       else outcome (calls s ! k) = Some (McpError InternalError timeoutMessage)))"

text \<open>Sample values: a date parser that knows no date, and a log entry.\<close>

definition noDate :: "string \<Rightarrow> int option" where
  "noDate t = None"

definition sampleLog :: "string \<Rightarrow> LogEntry" where
  "sampleLog m = \<lparr>message = m, stackTrace = [], logType = ''Log'', timestamp = []\<rparr>"


text \<open>
  Two \<^verbatim>\<open>editorState\<close> payloads: one with a path of a package among its scripts, one
  without the four state fields and with a category that is a number.
\<close>

definition snapshotFrame :: json where
  "snapshotFrame =
     JObj [(''playModeState'', JStr ''Playing''),
           (''projectStructure'',
            JObj [(''scripts'', JArr [JStr ''Packages/com.unity.ugui/Runtime/UI.cs'',
                                      JStr ''Assets/Scripts/Player.cs'',
                                      JStr ''Assets/Scripts/Enemy.cs'']),
                  (''prefabs'', JArr [JStr ''Assets/Prefabs/Hero.prefab''])])]"

definition sparseFrame :: json where
  "sparseFrame =
     JObj [(''projectStructure'',
            JObj [(''scripts'', JArr [JStr ''Assets/Scripts/Player.cs'']),
                  (''version'', JNum 3)])]"


section \<open>Well-typed snapshot frames\<close>

text \<open>
  The interface \<^verbatim>\<open>UnityEditorState\<close> declares \<^verbatim>\<open>projectStructure\<close> as a mapping from
  category names to arrays of strings. The handler reads it without that guarantee:
  the categories it iterates are the own properties of \<^verbatim>\<open>message.data.projectStructure\<close>
  (none when the property is absent). A frame is processed without exception exactly
  when its payload is not \<^verbatim>\<open>null\<close> and every category that is an array holds strings
  only.
\<close>

definition structureEntries :: "json \<Rightarrow> (string \<times> json) list" where
  "structureEntries d =
     (case own_prop d ''projectStructure'' of None \<Rightarrow> [] | Some ps \<Rightarrow> own_props ps)"

fun isString :: "json \<Rightarrow> bool" where
  "isString (JStr s) = True"
| "isString v = False"

fun pathsAreStrings :: "(string \<times> json) list \<Rightarrow> bool" where
  "pathsAreStrings [] = True"
| "pathsAreStrings ((k, JArr paths) # rest) = (list_all isString paths \<and> pathsAreStrings rest)"
| "pathsAreStrings ((k, v) # rest) = pathsAreStrings rest"

text \<open>
  The mirrored project structure in the words of the specification, to be compared
  with what \<^const>\<open>filterProjectStructure\<close> computes: from every category list, the paths
  under the reserved prefix \<^verbatim>\<open>Packages/\<close> are removed and the other paths are retained in
  their order; a category that is not a list is not mirrored. A category named
  \<^verbatim>\<open>__proto__\<close> is left out of the comparison.
\<close>

fun userPath :: "json \<Rightarrow> bool" where
  "userPath (JStr p) = (\<not> startsWith p ''Packages/'')"
| "userPath v = True"

fun mirroredStructure :: "(string \<times> json) list \<Rightarrow> (string \<times> json) list" where
  "mirroredStructure [] = []"
| "mirroredStructure ((k, JArr paths) # rest) =
     (if k = ''__proto__'' then mirroredStructure rest
      else (k, JArr (filter userPath paths)) # mirroredStructure rest)"
| "mirroredStructure ((k, v) # rest) = mirroredStructure rest"

text \<open>
  Two more \<^verbatim>\<open>editorState\<close> payloads: one whose scripts hold a number after a path, and
  one with a category named \<^verbatim>\<open>__proto__\<close>.
\<close>

definition mixedFrame :: json where
  "mixedFrame =
     JObj [(''activeGameObjects'', JArr [JStr ''Main Camera'']),
           (''projectStructure'',
            JObj [(''scripts'', JArr [JStr ''Assets/Scripts/Player.cs'', JNum 5])])]"

definition protoFrame :: json where
  "protoFrame =
     JObj [(''projectStructure'',
            JObj [(''__proto__'', JArr [JStr ''Assets/Scripts/Player.cs''])])]"


section \<open>The log buffer as an array of objects\<close>

text \<open>
  Whether \<^verbatim>\<open>filterLogs\<close> changes the log buffer depends on what its array operations
  write. Here the method is modelled over a store of cells: \<^verbatim>\<open>this.logBuffer\<close> is the
  address of an array cell whose elements are the addresses of the \<^verbatim>\<open>LogEntry\<close> objects;
  \<^verbatim>\<open>filter\<close>, \<^verbatim>\<open>slice\<close> and \<^verbatim>\<open>map\<close> each allocate a new array; the callback of \<^verbatim>\<open>map\<close>
  allocates the object \<^verbatim>\<open>selectedFields\<close> and assigns its properties one by one. An
  address is an index of the store, and allocation appends a cell.
\<close>

datatype cell =
    EntryCell LogEntry
  | PartialCell "(string \<times> string) list"
  | ArrayCell "nat list"

definition cellAt :: "cell list \<Rightarrow> nat \<Rightarrow> cell option" where
  "cellAt h a = (if a < length h then Some (h ! a) else None)"

definition new_cell :: "cell \<Rightarrow> cell list \<Rightarrow> nat \<times> cell list" where
  "new_cell c h = (length h, h @ [c])"

text \<open>
  The callback of \<^verbatim>\<open>filter\<close> over the elements of an array: the elements that pass, in
  order. The callback reads the fields of the entry that its element refers to.
\<close>

fun filterArray ::
  "(string \<Rightarrow> int option) \<Rightarrow> LogOptions \<Rightarrow> cell list \<Rightarrow> nat list \<Rightarrow> js_error + nat list" where
  "filterArray date options h [] = Inr []"
| "filterArray date options h (a # rest) =
     (case cellAt h a of
        Some (EntryCell log) \<Rightarrow>
          (case filterArray date options h rest of
             Inl e \<Rightarrow> Inl e
           | Inr kept \<Rightarrow> Inr (if logMatches date options log then a # kept else kept))
      | _ \<Rightarrow> Inl TypeError)"

text \<open>
  The \<^verbatim>\<open>forEach\<close> of the \<^verbatim>\<open>map\<close> callback: \<^verbatim>\<open>selectedFields[field] = log[field]\<close> for
  each selected field of the entry, written into the cell at \<open>obj\<close>.
\<close>

fun assignFields :: "string list \<Rightarrow> LogEntry \<Rightarrow> nat \<Rightarrow> cell list \<Rightarrow> cell list" where
  "assignFields [] log obj h = h"
| "assignFields (field # rest) log obj h =
     (case logField log field of
        None \<Rightarrow> assignFields rest log obj h
      | Some v \<Rightarrow>
          (case cellAt h obj of
             Some (PartialCell ps) \<Rightarrow>
               assignFields rest log obj (h[obj := PartialCell (AList.update field v ps)])
           | _ \<Rightarrow> assignFields rest log obj h))"

text \<open>
  The callback of \<^verbatim>\<open>map\<close> over the elements of an array: for each element the object
  \<^verbatim>\<open>selectedFields\<close> is allocated, empty, and filled; the addresses of the new objects
  are returned with the store.
\<close>

fun mapArray :: "string list \<Rightarrow> nat list \<Rightarrow> cell list \<Rightarrow> js_error + (nat list \<times> cell list)" where
  "mapArray fs [] h = Inr ([], h)"
| "mapArray fs (a # rest) h =
     (case cellAt h a of
        Some (EntryCell log) \<Rightarrow>
          (case mapArray fs rest (assignFields fs log (length h) (h @ [PartialCell []])) of
             Inl e \<Rightarrow> Inl e
           | Inr (objs, h') \<Rightarrow> Inr (length h # objs, h'))
      | _ \<Rightarrow> Inl TypeError)"

text \<open>
  The three array methods, called on the array at the address \<open>a\<close>: each reads that
  array and returns the address of a new one.
\<close>

definition arrayFilter ::
  "(string \<Rightarrow> int option) \<Rightarrow> LogOptions \<Rightarrow> nat \<Rightarrow> cell list \<Rightarrow> js_error + (nat \<times> cell list)" where
  "arrayFilter date options a h =
     (case cellAt h a of
        Some (ArrayCell refs) \<Rightarrow>
          (case filterArray date options h refs of
             Inl e \<Rightarrow> Inl e
           | Inr kept \<Rightarrow> Inr (new_cell (ArrayCell kept) h))
      | _ \<Rightarrow> Inl TypeError)"

definition arraySlice :: "int \<Rightarrow> nat \<Rightarrow> cell list \<Rightarrow> js_error + (nat \<times> cell list)" where
  "arraySlice start a h =
     (case cellAt h a of
        Some (ArrayCell refs) \<Rightarrow> Inr (new_cell (ArrayCell (js_slice start refs)) h)
      | _ \<Rightarrow> Inl TypeError)"

definition arrayMap :: "string list \<Rightarrow> nat \<Rightarrow> cell list \<Rightarrow> js_error + (nat \<times> cell list)" where
  "arrayMap fs a h =
     (case cellAt h a of
        Some (ArrayCell refs) \<Rightarrow>
          (case mapArray fs refs h of
             Inl e \<Rightarrow> Inl e
           | Inr (objs, h') \<Rightarrow> Inr (new_cell (ArrayCell objs) h'))
      | _ \<Rightarrow> Inl TypeError)"

text \<open>
  \<^verbatim>\<open>filterLogs\<close> on the store, with \<^verbatim>\<open>this.logBuffer\<close> at the address \<open>b\<close>: the address of
  the returned array, and the store after the call.
\<close>

definition filterLogsStore ::
  "(string \<Rightarrow> int option) \<Rightarrow> LogOptions \<Rightarrow> nat \<Rightarrow> cell list \<Rightarrow> js_error + (nat \<times> cell list)" where
  "filterLogsStore date options b h =
     (case arrayFilter date options b h of
        Inl e \<Rightarrow> Inl e
      | Inr (filtered, h1) \<Rightarrow>
          (case arraySlice (- (case count options of None \<Rightarrow> 100 | Some c \<Rightarrow> c)) filtered h1 of
             Inl e \<Rightarrow> Inl e
           | Inr (filteredLogs, h2) \<Rightarrow>
               (case fields_opt options of
                  None \<Rightarrow> Inr (filteredLogs, h2)
                | Some fs \<Rightarrow>
                    if fs \<noteq> [] then arrayMap fs filteredLogs h2 else Inr (filteredLogs, h2))))"

text \<open>
  Reading the store: the entries of the log buffer at \<open>b\<close>, and the objects of a
  returned array as \<^verbatim>\<open>JSON.stringify\<close> prints them, each by its properties in order.
\<close>

definition entryOf :: "cell list \<Rightarrow> nat \<Rightarrow> LogEntry option" where
  "entryOf h a = (case cellAt h a of Some (EntryCell log) \<Rightarrow> Some log | _ \<Rightarrow> None)"

definition bufferOf :: "cell list \<Rightarrow> nat \<Rightarrow> LogEntry list option" where
  "bufferOf h b =
     (case cellAt h b of Some (ArrayCell refs) \<Rightarrow> those (map (entryOf h) refs) | _ \<Rightarrow> None)"

definition entryProps :: "LogEntry \<Rightarrow> (string \<times> string) list" where
  "entryProps log =
     [(''message'', message log), (''stackTrace'', stackTrace log),
      (''logType'', logType log), (''timestamp'', timestamp log)]"

definition propsOf :: "cell list \<Rightarrow> nat \<Rightarrow> (string \<times> string) list option" where
  "propsOf h a =
     (case cellAt h a of
        Some (EntryCell log) \<Rightarrow> Some (entryProps log)
      | Some (PartialCell ps) \<Rightarrow> Some ps
      | _ \<Rightarrow> None)"

definition arrayContent :: "cell list \<Rightarrow> nat \<Rightarrow> (string \<times> string) list list option" where
  "arrayContent h r =
     (case cellAt h r of Some (ArrayCell refs) \<Rightarrow> those (map (propsOf h) refs) | _ \<Rightarrow> None)"

text \<open>The same reading of the value that \<^const>\<open>filterLogs\<close> returns.\<close>

fun render :: "log_result \<Rightarrow> (string \<times> string) list list" where
  "render (Entries logs) = map entryProps logs"
| "render (Projected objs) = objs"

text \<open>
  A store for a given log buffer: its entries, then the array that holds them, at the
  address that is the length of the buffer.
\<close>

definition storeOf :: "LogEntry list \<Rightarrow> cell list" where
  "storeOf logs = map EntryCell logs @ [ArrayCell [0..<length logs]]"

text \<open>A store with two entries and the log buffer that holds them, at address 2.\<close>

definition sampleStore :: "cell list" where
  "sampleStore =
     [EntryCell (sampleLog ''[UnityMCP] started''), EntryCell (sampleLog ''frame''),
      ArrayCell [0, 1]]"

definition messageOnly :: LogOptions where
  "messageOnly = noOptions\<lparr>fields_opt := Some [''message''], messageContains := Some ''frame''\<rparr>"


section \<open>What the events leave unchanged\<close>

lemma callTool_frame:
  "logBuffer (snd (callTool date r s)) = logBuffer s"
  "maxLogBufferSize (snd (callTool date r s)) = maxLogBufferSize s"
  "editorState (snd (callTool date r s)) = editorState s"
  "unityConnection (snd (callTool date r s)) = unityConnection s"
  "clock (snd (callTool date r s)) = clock s"
  by (auto simp: callTool_def executeEditorCommand_def dispatchCommand_def Let_def
      split: option.splits request.splits json.splits)

lemma resolveCall_frame:
  "logBuffer (resolveCall k d s) = logBuffer s"
  "maxLogBufferSize (resolveCall k d s) = maxLogBufferSize s"
  "editorState (resolveCall k d s) = editorState s"
  "unityConnection (resolveCall k d s) = unityConnection s"
  "clock (resolveCall k d s) = clock s"
  "sent (resolveCall k d s) = sent s"
  "commandResultPromise (resolveCall k d s) = commandResultPromise s"
  "commandStartTime (resolveCall k d s) = commandStartTime s"
  "length (calls (resolveCall k d s)) = length (calls s)"
  by (simp_all add: resolveCall_def)

lemma on_message_maxLogBufferSize:
  "maxLogBufferSize (on_message m s) = maxLogBufferSize s"
  by (cases m) (simp_all add: on_message_def handleLogMessage_def Let_def resolveCall_frame
      split: sum.splits option.splits)

lemma step_maxLogBufferSize: "maxLogBufferSize (step date e s) = maxLogBufferSize s"
  by (cases e) (simp_all add: on_connection_def on_close_def on_message_maxLogBufferSize
      callTool_frame elapse_def)

lemma run_maxLogBufferSize: "maxLogBufferSize (run date evs s) = maxLogBufferSize s"
  by (induction evs arbitrary: s) (simp_all add: step_maxLogBufferSize)

lemma run_append: "run date (xs @ ys) s = run date ys (run date xs s)"
  by (induction xs arbitrary: s) simp_all


section \<open>The log buffer\<close>

lemma handleLogMessage_buffer:
  "logBuffer (handleLogMessage e s)
     = drop (Suc (length (logBuffer s)) - maxLogBufferSize s) (logBuffer s @ [e])"
  if "length (logBuffer s) \<le> maxLogBufferSize s"
proof (cases "length (logBuffer s) < maxLogBufferSize s")
  case True
  then show ?thesis by (simp add: handleLogMessage_def Let_def)
next
  case False
  with that have "Suc (length (logBuffer s)) - maxLogBufferSize s = Suc 0" by simp
  with False show ?thesis
    by (simp add: handleLogMessage_def Let_def drop_Suc del: drop_append)
qed

lemma handleLogMessage_length:
  "length (logBuffer s) \<le> maxLogBufferSize s \<Longrightarrow>
   length (logBuffer (handleLogMessage e s)) \<le> maxLogBufferSize s"
  by (auto simp: handleLogMessage_def Let_def)

lemma on_message_length:
  "length (logBuffer s) \<le> maxLogBufferSize s \<Longrightarrow>
   length (logBuffer (on_message m s)) \<le> maxLogBufferSize s"
  by (cases m) (auto simp: on_message_def handleLogMessage_length resolveCall_frame
      split: sum.splits option.splits)

lemma step_length:
  "length (logBuffer s) \<le> maxLogBufferSize s \<Longrightarrow>
   length (logBuffer (step date e s)) \<le> maxLogBufferSize s"
  by (cases e) (simp_all add: on_connection_def on_close_def on_message_length
      callTool_frame elapse_def)

lemma run_length:
  "length (logBuffer s) \<le> maxLogBufferSize s \<Longrightarrow>
   length (logBuffer (run date evs s)) \<le> maxLogBufferSize s"
proof (induction evs arbitrary: s)
  case Nil
  then show ?case by simp
next
  case (Cons e evs)
  have "length (logBuffer (step date e s)) \<le> maxLogBufferSize (step date e s)"
    using Cons.prems by (simp add: step_length step_maxLogBufferSize)
  from Cons.IH [OF this] show ?case by (simp add: step_maxLogBufferSize)
qed

lemma run_logFrames:
  "length (logBuffer s) \<le> maxLogBufferSize s \<Longrightarrow>
   logBuffer (run date (logFrames es) s)
     = drop (length (logBuffer s) + length es - maxLogBufferSize s) (logBuffer s @ es)"
proof (induction es arbitrary: s)
  case Nil
  then show ?case by (simp add: logFrames_def)
next
  case (Cons e es)
  let ?s = "handleLogMessage e s"
  have m: "maxLogBufferSize ?s = maxLogBufferSize s"
    by (simp add: handleLogMessage_def Let_def)
  have len: "length (logBuffer ?s) \<le> maxLogBufferSize ?s"
    using Cons.prems by (simp add: handleLogMessage_length m)
  have b: "logBuffer ?s = drop (Suc (length (logBuffer s)) - maxLogBufferSize s) (logBuffer s @ [e])"
    using Cons.prems by (rule handleLogMessage_buffer)
  have "logBuffer (run date (logFrames (e # es)) s) = logBuffer (run date (logFrames es) ?s)"
    by (simp add: on_message_def logFrames_def)
  also have "\<dots> = drop (length (logBuffer ?s) + length es - maxLogBufferSize s) (logBuffer ?s @ es)"
    using Cons.IH [OF len] by (simp add: m)
  also have "\<dots> = drop (length (logBuffer s) + length (e # es) - maxLogBufferSize s) (logBuffer s @ e # es)"
  proof (cases "length (logBuffer s) < maxLogBufferSize s")
    case True
    then show ?thesis by (simp add: b)
  next
    case False
    with Cons.prems have eq: "length (logBuffer s) = maxLogBufferSize s" by simp
    show ?thesis
      by (cases "logBuffer s") (use eq in \<open>auto simp: b drop_Suc Suc_diff_le\<close>)
  qed
  finally show ?case .
qed

text \<open>
  C4. Whatever the events, the log buffer never holds more than its capacity \<open>C\<close>;
  after the entries \<open>es\<close> have arrived in order, starting from the empty buffer, it
  holds exactly the last \<open>C\<close> of them (all of them when there are fewer) in their order
  of arrival; with capacity 3, the arrivals a, b, c, d leave b, c, d.
\<close>

theorem ring_log_buffer_fifo:
  "length (logBuffer (run date evs (init\<lparr>maxLogBufferSize := C\<rparr>))) \<le> C
   \<and> logBuffer (run date (logFrames es) (init\<lparr>maxLogBufferSize := C\<rparr>)) = drop (length es - C) es
   \<and> logBuffer (run date (logFrames [a, b, c, d]) (init\<lparr>maxLogBufferSize := 3\<rparr>)) = [b, c, d]"
proof -
  have i: "length (logBuffer (init\<lparr>maxLogBufferSize := n\<rparr>))
             \<le> maxLogBufferSize (init\<lparr>maxLogBufferSize := n\<rparr>)" for n
    by (simp add: init_def)
  have 1: "length (logBuffer (run date evs (init\<lparr>maxLogBufferSize := C\<rparr>))) \<le> C"
    using run_length [OF i, of date evs C] by simp
  have 2: "logBuffer (run date (logFrames xs) (init\<lparr>maxLogBufferSize := n\<rparr>))
             = drop (length xs - n) xs" for xs n
    using run_logFrames [OF i, of date xs n] by (simp add: init_def)
  show ?thesis using 1 2 [of es C] 2 [of "[a, b, c, d]" 3] by simp
qed


section \<open>Calls without a connection\<close>

text \<open>
  C7. With no Unity connection, \<^verbatim>\<open>execute_editor_command\<close> answers at once with the
  error that the Unity Editor is not connected, and the server is left as it was: no
  frame is sent and no call is left pending.
\<close>

theorem execute_not_connected:
  "unityConnection s = None \<Longrightarrow>
   callTool date (ExecuteEditorCommand code) s
     = (Returned (McpError InternalError notConnectedMessage), s)
   \<and> sent (snd (callTool date (ExecuteEditorCommand code) s)) = sent s"
  by (simp add: callTool_def)

theorem execute_not_connected_witness:
  "unityConnection init = None
   \<and> callTool noDate (executeRequest ''noop'') init
       = (Returned (McpError InternalError notConnectedMessage), init)
   \<and> sent (snd (callTool noDate (executeRequest ''noop'') init)) = []"
  using execute_not_connected [of init noDate "Some (JStr ''noop'')"]
  by (simp add: init_def executeRequest_def)


section \<open>The life of a call\<close>


lemma executeCatch_timeout: "executeCatch timeoutMessage = McpError InternalError timeoutMessage"
  by (simp add: executeCatch_def timeoutMessage_def)

lemma callTool_calls:
  "calls (snd (callTool date r s)) = calls s
   \<or> calls (snd (callTool date r s))
        = calls s @ [\<lparr>startLogIndex = length (logBuffer s), deadline = clock s + timeoutMs, outcome = None\<rparr>]"
  by (auto simp: callTool_def executeEditorCommand_def dispatchCommand_def Let_def
      split: option.splits request.splits json.splits)

lemma on_message_calls_length: "length (calls (on_message m s)) = length (calls s)"
  by (cases m) (simp_all add: on_message_def handleLogMessage_def Let_def resolveCall_frame
      split: sum.splits option.splits)

lemma on_message_clock: "clock (on_message m s) = clock s"
  by (cases m) (simp_all add: on_message_def handleLogMessage_def Let_def resolveCall_frame
      split: sum.splits option.splits)

lemma step_calls_length: "length (calls s) \<le> length (calls (step date e s))"
proof (cases e)
  case (CallTool r)
  then show ?thesis using callTool_calls [of date r s] by auto
qed (simp_all add: on_connection_def on_close_def on_message_calls_length elapse_def)

lemma step_clock: "clock s \<le> clock (step date e s)"
  by (cases e) (simp_all add: on_connection_def on_close_def on_message_clock elapse_def callTool_frame)

lemma resolveCall_nth:
  "k < length (calls s) \<Longrightarrow>
   calls (resolveCall j d s) ! k
     = (if k = j \<and> outcome (calls s ! k) = None
        then (calls s ! k)\<lparr>outcome := Some (commandSuccess s (calls s ! k) d)\<rparr>
        else calls s ! k)"
  by (auto simp: resolveCall_def)

lemma on_message_nth:
  "k < length (calls s) \<Longrightarrow>
   calls (on_message m s) ! k
     = (case m of
          CommandResultMessage d \<Rightarrow>
            if commandResultPromise s = Some k \<and> outcome (calls s ! k) = None
            then (calls s ! k)\<lparr>outcome := Some (commandSuccess s (calls s ! k) d)\<rparr>
            else calls s ! k
        | _ \<Rightarrow> calls s ! k)"
  by (cases m) (auto simp: on_message_def handleLogMessage_def Let_def resolveCall_nth
      split: sum.splits option.splits)

lemma callTool_nth:
  "k < length (calls s) \<Longrightarrow> calls (snd (callTool date r s)) ! k = calls s ! k"
  using callTool_calls [of date r s] by (auto simp: nth_append)

lemma elapse_nth:
  "k < length (calls s) \<Longrightarrow> calls (elapse d s) ! k = fireTimer (clock s + d) (calls s ! k)"
  by (simp add: elapse_def)

text \<open>A settled call stays settled, with the same answer.\<close>

lemma step_settled:
  "k < length (calls s) \<Longrightarrow> outcome (calls s ! k) = Some r \<Longrightarrow>
   outcome (calls (step date e s) ! k) = Some r"
  by (cases e)
    (auto simp: on_connection_def on_close_def on_message_nth callTool_nth elapse_nth
      fireTimer_def split: unity_message.splits)

lemma run_calls_length: "length (calls s) \<le> length (calls (run date evs s))"
proof (induction evs arbitrary: s)
  case (Cons e evs)
  show ?case using step_calls_length [of s date e] Cons.IH [of "step date e s"] by simp
qed simp

lemma run_settled:
  "k < length (calls s) \<Longrightarrow> outcome (calls s ! k) = Some r \<Longrightarrow>
   outcome (calls (run date evs s) ! k) = Some r"
proof (induction evs arbitrary: s)
  case (Cons e evs)
  have "k < length (calls (step date e s))"
    using Cons.prems(1) step_calls_length [of s date e] by simp
  moreover have "outcome (calls (step date e s) ! k) = Some r"
    using Cons.prems by (rule step_settled)
  ultimately show ?case using Cons.IH by simp
qed simp

lemma step_awaiting:
  assumes "awaiting k D s" "\<not> isCommandResult e"
  shows "awaiting k D (step date e s)"
proof (cases e)
  case (Connection ws)
  then show ?thesis using assms by (simp add: awaiting_def on_connection_def)
next
  case Close
  then show ?thesis using assms by (simp add: awaiting_def on_close_def)
next
  case (Message m)
  have "calls (on_message m s) ! k = calls s ! k"
    using assms Message by (cases m) (simp_all add: on_message_nth awaiting_def)
  then show ?thesis
    using assms(1) Message by (simp add: awaiting_def on_message_calls_length on_message_clock)
next
  case (CallTool r)
  have "k < length (calls (snd (callTool date r s)))"
    using assms(1) step_calls_length [of s date "CallTool r"] by (simp add: awaiting_def)
  then show ?thesis
    using assms(1) CallTool by (simp add: awaiting_def callTool_nth callTool_frame)
next
  case (Elapse d)
  then show ?thesis
    using assms(1)
    by (auto simp: awaiting_def elapse_nth fireTimer_def executeCatch_timeout elapse_def
        split: if_splits)
qed

lemma run_awaiting:
  "awaiting k D s \<Longrightarrow> \<not> list_ex isCommandResult evs \<Longrightarrow> awaiting k D (run date evs s)"
proof (induction evs arbitrary: s)
  case (Cons e evs)
  then show ?case using step_awaiting [of k D s e date] by simp
qed simp

lemma dispatch_callTool:
  assumes "unityConnection s = Some ws" "trim c \<noteq> []"
  shows "callTool date (executeRequest c) s
           = (Suspended (length (calls s)),
              s\<lparr>commandStartTime := Some (clock s),
                sent := sent s @ [(ws, c)],
                commandResultPromise := Some (length (calls s)),
                calls := calls s @ [\<lparr>startLogIndex = length (logBuffer s),
                                     deadline = clock s + timeoutMs, outcome = None\<rparr>]\<rparr>)"
proof -
  from assms(2) have "c \<noteq> []" by (auto simp: trim_def)
  with assms show ?thesis
    by (simp add: callTool_def executeRequest_def executeEditorCommand_def dispatchCommand_def Let_def)
qed


lemma dispatch_awaiting:
  assumes "unityConnection s = Some ws" "trim c \<noteq> []"
    and "callTool date (executeRequest c) s = (r, s1)"
  shows "r = Suspended (length (calls s))"
    and "awaiting (length (calls s)) (clock s + timeoutMs) s1"
    and "commandResultPromise s1 = Some (length (calls s))"
    and "sent s1 = sent s @ [(ws, c)]"
    and "unityConnection s1 = Some ws"
    and "length (calls s1) = Suc (length (calls s))"
    and "outcome (calls s1 ! length (calls s)) = None"
    and "clock s1 = clock s"
    and "\<And>j. j < length (calls s) \<Longrightarrow> calls s1 ! j = calls s ! j"
proof -
  from assms(3) have r: "r = Suspended (length (calls s))"
    and s1: "s1 = s\<lparr>commandStartTime := Some (clock s),
                sent := sent s @ [(ws, c)],
                commandResultPromise := Some (length (calls s)),
                calls := calls s @ [\<lparr>startLogIndex = length (logBuffer s),
                                     deadline = clock s + timeoutMs, outcome = None\<rparr>]\<rparr>"
    unfolding dispatch_callTool [OF assms(1,2)] by simp_all
  show "r = Suspended (length (calls s))" by (rule r)
  show "awaiting (length (calls s)) (clock s + timeoutMs) s1"
    by (simp add: s1 awaiting_def timeoutMs_def)
  show "commandResultPromise s1 = Some (length (calls s))" by (simp add: s1)
  show "sent s1 = sent s @ [(ws, c)]" by (simp add: s1)
  show "unityConnection s1 = Some ws" by (simp add: s1 assms(1))
  show "length (calls s1) = Suc (length (calls s))" by (simp add: s1)
  show "outcome (calls s1 ! length (calls s)) = None" by (simp add: s1)
  show "clock s1 = clock s" by (simp add: s1)
  show "calls s1 ! j = calls s ! j" if "j < length (calls s)" for j
    using that by (simp add: s1 nth_append)
qed

lemmas run_eval =
  init_def on_connection_def on_close_def on_message_def elapse_def fireTimer_def
  callTool_def executeRequest_def executeEditorCommand_def dispatchCommand_def
  resolveCall_def commandSuccess_def handleLogMessage_def
  trim_def is_space_def timeoutMs_def executeCatch_timeout Let_def

text \<open>
  C3. A call of \<^verbatim>\<open>execute_editor_command\<close> is dispatched and suspended. If no
  \<^verbatim>\<open>commandResult\<close> frame arrives while the clock advances by 5000 ms, whatever else
  happens, the call is answered by the time-out error, an \<^verbatim>\<open>McpError\<close> of code
  \<^verbatim>\<open>InternalError\<close> with the "timed out" message. A call made afterwards, while a
  connection is present, is dispatched: its frame is sent, its promise is stored in
  \<^verbatim>\<open>commandResultPromise\<close> and it is pending.
\<close>

theorem command_timeout:
  assumes "unityConnection s = Some ws" and "trim c \<noteq> []"
    and "callTool date (executeRequest c) s = (r, s1)"
    and "\<not> list_ex isCommandResult evs"
    and "s2 = run date evs s1"
    and "clock s + timeoutMs \<le> clock s2"
    and "unityConnection s2 = Some ws'" and "trim c' \<noteq> []"
    and "callTool date (executeRequest c') s2 = (r', s3)"
  shows "r = Suspended (length (calls s))
    \<and> outcome (calls s2 ! length (calls s)) = Some (McpError InternalError timeoutMessage)
    \<and> r' = Suspended (length (calls s2))
    \<and> sent s3 = sent s2 @ [(ws', c')]
    \<and> commandResultPromise s3 = Some (length (calls s2))
    \<and> outcome (calls s3 ! length (calls s2)) = None"
proof -
  note d = dispatch_awaiting [OF assms(1,2,3)]
  have "awaiting (length (calls s)) (clock s + timeoutMs) s2"
    unfolding assms(5) using d(2) assms(4) by (rule run_awaiting)
  with assms(6)
  have 1: "outcome (calls s2 ! length (calls s)) = Some (McpError InternalError timeoutMessage)"
    by (simp add: awaiting_def)
  note d' = dispatch_awaiting [OF assms(7,8,9)]
  from d(1) 1 d'(1,3,4,7) show ?thesis by simp
qed

text \<open>
  The run: connect, call with the code \<^verbatim>\<open>noop\<close>, 5000 ms pass, call again.
\<close>

theorem command_timeout_witness:
  "unityConnection (on_connection 0 init) = Some 0 \<and> trim ''noop'' \<noteq> []
   \<and> \<not> list_ex isCommandResult [Elapse 5000]
   \<and> outcome (calls (run noDate [Connection 0, CallTool (executeRequest ''noop''), Elapse 5000] init) ! 0)
       = Some (McpError InternalError timeoutMessage)
   \<and> fst (callTool noDate (executeRequest ''again'')
        (run noDate [Connection 0, CallTool (executeRequest ''noop''), Elapse 5000] init)) = Suspended 1
   \<and> sent (run noDate [Connection 0, CallTool (executeRequest ''noop''), Elapse 5000,
                         CallTool (executeRequest ''again'')] init)
       = [(0, ''noop''), (0, ''again'')]"
proof -
  let ?s = "on_connection 0 init"
  let ?s1 = "snd (callTool noDate (executeRequest ''noop'') ?s)"
  let ?s2 = "run noDate [Elapse 5000] ?s1"
  have a: "unityConnection ?s = Some 0" by (simp add: on_connection_def)
  have b: "trim ''noop'' \<noteq> []" by (simp add: trim_def is_space_def)
  have b': "trim ''again'' \<noteq> []" by (simp add: trim_def is_space_def)
  have c: "callTool noDate (executeRequest ''noop'') ?s
             = (fst (callTool noDate (executeRequest ''noop'') ?s), ?s1)" by simp
  have e: "\<not> list_ex isCommandResult [Elapse 5000]" by simp
  have f: "clock ?s + timeoutMs \<le> clock ?s2"
    by (simp add: run_eval)
  have g: "unityConnection ?s2 = Some 0"
    by (simp add: run_eval)
  have h: "callTool noDate (executeRequest ''again'') ?s2
             = (fst (callTool noDate (executeRequest ''again'') ?s2),
                snd (callTool noDate (executeRequest ''again'') ?s2))" by simp
  from command_timeout [OF a b c e refl f g b' h]
  show ?thesis by (simp add: run_eval)
qed

text \<open>
  After the time-out, \<^verbatim>\<open>commandResultPromise\<close> is not empty: it still holds the promise
  of the call that timed out.
\<close>

theorem command_timeout_slot_counterexample:
  "outcome (calls (run noDate [Connection 0, CallTool (executeRequest ''noop''), Elapse 5000] init) ! 0)
     = Some (McpError InternalError timeoutMessage)
   \<and> commandResultPromise (run noDate [Connection 0, CallTool (executeRequest ''noop''), Elapse 5000] init)
     = Some 0"
  by (simp add: run_eval)


subsection \<open>The connection closes while a call is pending\<close>

lemma run_Close_frame:
  "calls (run date [Close] s) = calls s"
  "commandResultPromise (run date [Close] s) = commandResultPromise s"
  "unityConnection (run date [Close] s) = None"
  "clock (run date [Close] s) = clock s"
  by (simp_all add: on_close_def)

text \<open>
  C2. The \<^verbatim>\<open>close\<close> handler clears \<^verbatim>\<open>unityConnection\<close> and nothing else: when the
  connection closes within the 5000 ms of a dispatched call, \<^verbatim>\<open>commandResultPromise\<close>
  is what it was and the call is still pending. If no \<^verbatim>\<open>commandResult\<close> frame arrives
  before or after, the call is answered by the time-out error once the clock has
  advanced by 5000 ms since the dispatch, and no later event of any kind changes
  that answer.
\<close>

theorem disconnect_in_flight:
  assumes "unityConnection s = Some ws" and "trim c \<noteq> []"
    and "callTool date (executeRequest c) s = (r, s1)"
    and "\<not> list_ex isCommandResult pre" and "\<not> list_ex isCommandResult post"
    and "clock (run date pre s1) < clock s + timeoutMs"
    and "clock s + timeoutMs \<le> clock (run date (pre @ Close # post) s1)"
  shows "unityConnection (run date (pre @ [Close]) s1) = None
    \<and> commandResultPromise (run date (pre @ [Close]) s1) = commandResultPromise (run date pre s1)
    \<and> outcome (calls (run date (pre @ [Close]) s1) ! length (calls s)) = None
    \<and> outcome (calls (run date (pre @ Close # post) s1) ! length (calls s))
        = Some (McpError InternalError timeoutMessage)
    \<and> outcome (calls (run date (pre @ Close # post @ later) s1) ! length (calls s))
        = Some (McpError InternalError timeoutMessage)"
proof -
  let ?k = "length (calls s)" and ?D = "clock s + timeoutMs"
  note d = dispatch_awaiting [OF assms(1,2,3)]
  have pre: "awaiting ?k ?D (run date pre s1)"
    using d(2) assms(4) by (rule run_awaiting)
  with assms(6) have 1: "outcome (calls (run date (pre @ [Close]) s1) ! ?k) = None"
    by (simp add: run_append run_Close_frame awaiting_def del: run.simps)
  have "\<not> list_ex isCommandResult (pre @ Close # post)"
    using assms(4,5) by simp
  with d(2) have post: "awaiting ?k ?D (run date (pre @ Close # post) s1)"
    by (rule run_awaiting)
  with assms(7)
  have 2: "outcome (calls (run date (pre @ Close # post) s1) ! ?k)
             = Some (McpError InternalError timeoutMessage)"
    by (simp add: awaiting_def)
  from post have "?k < length (calls (run date (pre @ Close # post) s1))"
    by (simp add: awaiting_def)
  from this 2
  have "outcome (calls (run date later (run date (pre @ Close # post) s1)) ! ?k)
          = Some (McpError InternalError timeoutMessage)"
    by (rule run_settled)
  then have 3: "outcome (calls (run date (pre @ Close # post @ later) s1) ! ?k)
          = Some (McpError InternalError timeoutMessage)"
    using run_append [of date "pre @ Close # post" later s1] by simp
  show ?thesis
    using 1 2 3 by (simp add: run_append run_Close_frame del: run.simps)
qed

text \<open>
  The run: connect, call, 1000 ms pass, the connection closes, 4000 ms pass, a new
  connection delivers a late result.
\<close>

theorem disconnect_in_flight_witness:
  "unityConnection (on_connection 0 init) = Some 0 \<and> trim ''noop'' \<noteq> []
   \<and> \<not> list_ex isCommandResult [Elapse 1000] \<and> \<not> list_ex isCommandResult [Elapse 4000]
   \<and> outcome (calls (run noDate
        [Connection 0, CallTool (executeRequest ''noop''), Elapse 1000, Close] init) ! 0) = None
   \<and> outcome (calls (run noDate
        [Connection 0, CallTool (executeRequest ''noop''), Elapse 1000, Close, Elapse 4000] init) ! 0)
       = Some (McpError InternalError timeoutMessage)
   \<and> outcome (calls (run noDate
        [Connection 0, CallTool (executeRequest ''noop''), Elapse 1000, Close, Elapse 4000,
         Connection 1, Message (CommandResultMessage (JStr ''late''))] init) ! 0)
       = Some (McpError InternalError timeoutMessage)"
proof -
  let ?s = "on_connection 0 init"
  let ?s1 = "snd (callTool noDate (executeRequest ''noop'') ?s)"
  have a: "unityConnection ?s = Some 0" by (simp add: on_connection_def)
  have b: "trim ''noop'' \<noteq> []" by (simp add: trim_def is_space_def)
  have c: "callTool noDate (executeRequest ''noop'') ?s
             = (fst (callTool noDate (executeRequest ''noop'') ?s), ?s1)" by simp
  have e1: "\<not> list_ex isCommandResult [Elapse 1000]" by simp
  have e2: "\<not> list_ex isCommandResult [Elapse 4000]" by simp
  have f: "clock (run noDate [Elapse 1000] ?s1) < clock ?s + timeoutMs"
    by (simp add: run_eval)
  have g: "clock ?s + timeoutMs \<le> clock (run noDate ([Elapse 1000] @ Close # [Elapse 4000]) ?s1)"
    by (simp add: run_eval)
  from disconnect_in_flight [OF a b c e1 e2 f g,
      of "[Connection 1, Message (CommandResultMessage (JStr ''late''))]"]
  show ?thesis by (simp add: run_eval)
qed

text \<open>
  Right after the close the call is not answered, by an error of the transport or
  otherwise, and the promise is still stored; what answers it is the time-out.
\<close>

theorem disconnect_in_flight_counterexample:
  "outcome (calls (run noDate [Connection 0, CallTool (executeRequest ''noop''), Close] init) ! 0) = None
   \<and> commandResultPromise (run noDate [Connection 0, CallTool (executeRequest ''noop''), Close] init)
       = Some 0
   \<and> outcome (calls (run noDate
        [Connection 0, CallTool (executeRequest ''noop''), Close, Elapse 5000] init) ! 0)
       = Some (McpError InternalError timeoutMessage)"
  by (simp add: run_eval)

subsection \<open>A second call while one is pending\<close>

text \<open>
  C1. A call of \<^verbatim>\<open>execute_editor_command\<close> made while \<^verbatim>\<open>commandResultPromise\<close> holds
  the promise of a pending call is not rejected. It is dispatched as any call is: it is
  suspended, its frame is sent, and \<^verbatim>\<open>commandResultPromise\<close> now holds its own promise
  in place of the earlier one. The earlier call is as it was: still pending.
\<close>

theorem execute_while_pending:
  assumes "unityConnection s = Some ws" and "trim c \<noteq> []"
    and "commandResultPromise s = Some j" and "j < length (calls s)"
    and "outcome (calls s ! j) = None"
    and "callTool date (executeRequest c) s = (r, s')"
  shows "r = Suspended (length (calls s))
    \<and> sent s' = sent s @ [(ws, c)]
    \<and> commandResultPromise s' = Some (length (calls s))
    \<and> commandResultPromise s' \<noteq> Some j
    \<and> outcome (calls s' ! length (calls s)) = None
    \<and> calls s' ! j = calls s ! j"
proof -
  note x = dispatch_awaiting [OF assms(1,2,6)]
  have "length (calls s) \<noteq> j" using assms(4) by simp
  with x(1,3,4,7) x(9) [OF assms(4)] show ?thesis by simp
qed

text \<open>The run: connect, call with the code \<^verbatim>\<open>a\<close>, call with the code \<^verbatim>\<open>b\<close>.\<close>

theorem execute_while_pending_witness:
  "unityConnection (run noDate [Connection 0, CallTool (executeRequest ''a'')] init) = Some 0
   \<and> trim ''b'' \<noteq> []
   \<and> commandResultPromise (run noDate [Connection 0, CallTool (executeRequest ''a'')] init) = Some 0
   \<and> outcome (calls (run noDate [Connection 0, CallTool (executeRequest ''a'')] init) ! 0) = None
   \<and> fst (callTool noDate (executeRequest ''b'')
        (run noDate [Connection 0, CallTool (executeRequest ''a'')] init)) = Suspended 1
   \<and> commandResultPromise
        (run noDate [Connection 0, CallTool (executeRequest ''a''), CallTool (executeRequest ''b'')] init)
       = Some 1
   \<and> outcome (calls (run noDate
        [Connection 0, CallTool (executeRequest ''a''), CallTool (executeRequest ''b'')] init) ! 0) = None"
proof -
  let ?s = "run noDate [Connection 0, CallTool (executeRequest ''a'')] init"
  have a: "unityConnection ?s = Some 0" by (simp add: run_eval)
  have b: "trim ''b'' \<noteq> []" by (simp add: trim_def is_space_def)
  have c: "commandResultPromise ?s = Some 0" by (simp add: run_eval)
  have d: "0 < length (calls ?s)" by (simp add: run_eval)
  have e: "outcome (calls ?s ! 0) = None" by (simp add: run_eval)
  have f: "callTool noDate (executeRequest ''b'') ?s
             = (fst (callTool noDate (executeRequest ''b'') ?s),
                snd (callTool noDate (executeRequest ''b'') ?s))" by simp
  from execute_while_pending [OF a b c d e f]
  show ?thesis by (simp add: run_eval)
qed

text \<open>
  The second call is suspended, not refused, and it changes how the first one ends:
  alone, the first call is answered by the result \<^verbatim>\<open>r\<close>; after the second call, the
  same frame leaves it pending, and it ends by its time-out.
\<close>

theorem execute_while_pending_counterexample:
  "commandResultPromise (run noDate [Connection 0, CallTool (executeRequest ''a'')] init) = Some 0
   \<and> outcome (calls (run noDate [Connection 0, CallTool (executeRequest ''a'')] init) ! 0) = None
   \<and> fst (callTool noDate (executeRequest ''b'')
        (run noDate [Connection 0, CallTool (executeRequest ''a'')] init)) = Suspended 1
   \<and> sent (run noDate [Connection 0, CallTool (executeRequest ''a''), CallTool (executeRequest ''b'')] init)
       = [(0, ''a''), (0, ''b'')]
   \<and> commandResultPromise
        (run noDate [Connection 0, CallTool (executeRequest ''a''), CallTool (executeRequest ''b'')] init)
       = Some 1
   \<and> outcome (calls (run noDate [Connection 0, CallTool (executeRequest ''a''),
        Message (CommandResultMessage (JStr ''r''))] init) ! 0)
       = Some (CommandResponse (JStr ''r'') [] 0)
   \<and> outcome (calls (run noDate [Connection 0, CallTool (executeRequest ''a''),
        CallTool (executeRequest ''b''), Message (CommandResultMessage (JStr ''r''))] init) ! 0)
       = None
   \<and> outcome (calls (run noDate [Connection 0, CallTool (executeRequest ''a''),
        CallTool (executeRequest ''b''), Message (CommandResultMessage (JStr ''r'')),
        Elapse 5000] init) ! 0)
       = Some (McpError InternalError timeoutMessage)"
  by (simp add: run_eval)


section \<open>Reading the logs\<close>

lemma js_slice_last: "0 < n \<Longrightarrow> js_slice (- int n) xs = drop (length xs - n) xs"
proof -
  assume "0 < n"
  have "nat (max (int (length xs) - int n) 0) = length xs - n" by simp
  with \<open>0 < n\<close> show ?thesis by (simp add: js_slice_def)
qed

lemma filterLogs_noOptions:
  "filterLogs date (noOptions\<lparr>count := Some 100\<rparr>) s
     = Entries (drop (length (logBuffer s) - 100) (logBuffer s))"
proof -
  have "logMatches date (noOptions\<lparr>count := Some 100\<rparr>) = (\<lambda>log. True)"
    by (simp add: logMatches_def noOptions_def fun_eq_iff)
  moreover have "js_slice (- 100) (logBuffer s) = drop (length (logBuffer s) - 100) (logBuffer s)"
    using js_slice_last [of 100 "logBuffer s"] by simp
  ultimately show ?thesis
    by (simp add: filterLogs_def noOptions_def)
qed

text \<open>
  C5. With a Unity connection, \<^verbatim>\<open>get_logs\<close> called without options answers with the
  last 100 entries of the buffer, in their order of arrival (the handler sets \<^verbatim>\<open>count\<close>
  to 100), and leaves the server as it was. This is the whole buffer, unmodified, when
  it holds at most 100 entries.
\<close>

theorem get_logs_no_options:
  "unityConnection s = Some ws \<Longrightarrow>
   callTool date (GetLogs noOptions) s
     = (Returned (LogsResponse (Entries (drop (length (logBuffer s) - 100) (logBuffer s)))), s)"
  using filterLogs_noOptions [of date s] by (simp add: callTool_def noOptions_def)

text \<open>The run: connect, two entries arrive; the answer is the two entries.\<close>

theorem get_logs_no_options_witness:
  "unityConnection (run noDate (Connection 0 # logFrames [sampleLog ''one'', sampleLog ''two'']) init)
     = Some 0
   \<and> fst (callTool noDate (GetLogs noOptions)
        (run noDate (Connection 0 # logFrames [sampleLog ''one'', sampleLog ''two'']) init))
     = Returned (LogsResponse (Entries [sampleLog ''one'', sampleLog ''two'']))"
proof -
  let ?s = "run noDate (Connection 0 # logFrames [sampleLog ''one'', sampleLog ''two'']) init"
  have a: "unityConnection ?s = Some 0" by (simp add: run_eval logFrames_def)
  from get_logs_no_options [OF a, of noDate] show ?thesis
    by (simp add: run_eval logFrames_def)
qed

lemma run_Connection_logFrames:
  "logBuffer (run date (Connection ws # logFrames es) init) = drop (length es - 1000) es"
  "unityConnection (run date (Connection ws # logFrames es) init) = Some ws"
proof -
  let ?s = "on_connection ws init"
  have i: "length (logBuffer ?s) \<le> maxLogBufferSize ?s" by (simp add: on_connection_def init_def)
  show "logBuffer (run date (Connection ws # logFrames es) init) = drop (length es - 1000) es"
    using run_logFrames [OF i, of date es] by (simp add: on_connection_def init_def)
  have "unityConnection (run date (logFrames es) s) = unityConnection s" for s
    by (induction es arbitrary: s)
      (simp_all add: logFrames_def on_message_def handleLogMessage_def Let_def)
  then show "unityConnection (run date (Connection ws # logFrames es) init) = Some ws"
    by (simp add: on_connection_def)
qed

text \<open>
  With 101 entries in the buffer the answer has the last 100 of them: it is not the
  buffer.
\<close>

theorem get_logs_truncated_counterexample:
  "length (logBuffer (run noDate (Connection 0 # logFrames (replicate 101 (sampleLog ''m''))) init)) = 101
   \<and> fst (callTool noDate (GetLogs noOptions)
        (run noDate (Connection 0 # logFrames (replicate 101 (sampleLog ''m''))) init))
     = Returned (LogsResponse (Entries (replicate 100 (sampleLog ''m''))))
   \<and> fst (callTool noDate (GetLogs noOptions)
        (run noDate (Connection 0 # logFrames (replicate 101 (sampleLog ''m''))) init))
     \<noteq> Returned (LogsResponse (Entries
          (logBuffer (run noDate (Connection 0 # logFrames (replicate 101 (sampleLog ''m''))) init))))"
proof -
  let ?s = "run noDate (Connection 0 # logFrames (replicate 101 (sampleLog ''m''))) init"
  have b: "logBuffer ?s = replicate 101 (sampleLog ''m'')"
    using run_Connection_logFrames(1) [of noDate 0 "replicate 101 (sampleLog ''m'')"] by simp
  have c: "unityConnection ?s = Some 0" by (rule run_Connection_logFrames(2))
  have "fst (callTool noDate (GetLogs noOptions) ?s)
          = Returned (LogsResponse (Entries (replicate 100 (sampleLog ''m''))))"
    using filterLogs_noOptions [of noDate ?s]
    by (simp add: callTool_def noOptions_def c b del: run.simps)
  then show ?thesis by (simp add: b del: run.simps)
qed


subsection \<open>Reading is not writing\<close>

lemma those_eq_Some: "those xs = Some ys \<longleftrightarrow> xs = map Some ys"
  by (induction xs arbitrary: ys) (auto split: option.splits)

lemma js_slice_map: "js_slice n (map f xs) = map f (js_slice n xs)"
  by (simp add: js_slice_def drop_map)

lemma set_js_slice: "set (js_slice n xs) \<subseteq> set xs"
  by (auto simp: js_slice_def dest: in_set_dropD)

lemma cellAt_append: "a < length h \<Longrightarrow> cellAt (h @ t) a = cellAt h a"
  by (simp add: cellAt_def nth_append)

lemma cellAt_new: "cellAt (h @ c # t) (length h) = Some c"
  by (simp add: cellAt_def)

lemma entryOf_Some: "entryOf h a = Some log \<longleftrightarrow> cellAt h a = Some (EntryCell log)"
  by (auto simp: entryOf_def split: option.splits cell.splits)

lemma entryOf_append: "entryOf h a = Some log \<Longrightarrow> entryOf (h @ t) a = Some log"
  by (auto simp: entryOf_Some cellAt_def nth_append split: if_splits)

lemma entries_append:
  "map (entryOf h) refs = map Some logs \<Longrightarrow> map (entryOf (h @ t)) refs = map Some logs"
  by (induction refs arbitrary: logs) (auto simp: entryOf_append)

lemma entries_props:
  "map (entryOf h) refs = map Some logs \<Longrightarrow> map (propsOf h) refs = map Some (map entryProps logs)"
  by (induction refs arbitrary: logs) (auto simp: entryOf_Some propsOf_def)

lemma bufferOf_append:
  "bufferOf h b = Some logs \<Longrightarrow> bufferOf (h @ t) b = Some logs"
  by (auto simp: bufferOf_def cellAt_def nth_append those_eq_Some entries_append
      split: if_splits cell.splits)

text \<open>The callback of \<open>filter\<close> keeps the addresses of the entries that match.\<close>

lemma filterArray_entries:
  "map (entryOf h) refs = map Some logs \<Longrightarrow>
   \<exists>kept. filterArray date options h refs = Inr kept
     \<and> map (entryOf h) kept = map Some (filter (logMatches date options) logs)"
proof (induction refs arbitrary: logs)
  case Nil
  then show ?case by simp
next
  case (Cons a refs)
  then obtain log rest where logs: "logs = log # rest" and a: "entryOf h a = Some log"
    and r: "map (entryOf h) refs = map Some rest" by (cases logs) auto
  from Cons.IH [OF r] obtain kept where "filterArray date options h refs = Inr kept"
    and "map (entryOf h) kept = map Some (filter (logMatches date options) rest)" by blast
  with a show ?case by (simp add: logs entryOf_Some)
qed

text \<open>The assignments of the \<open>map\<close> callback fill the new object, and only it.\<close>

lemma assignFields_new:
  "assignFields fs log (length h) (h @ [PartialCell ps])
     = h @ [PartialCell (selectFields fs log ps)]"
  by (induction fs arbitrary: ps) (simp_all add: cellAt_new split: option.splits)

lemma mapArray_entries:
  "map (entryOf h) refs = map Some logs \<Longrightarrow>
   \<exists>objs t. mapArray fs refs h = Inr (objs, h @ t)
     \<and> map (propsOf (h @ t)) objs = map Some (map (\<lambda>log. selectFields fs log []) logs)"
proof (induction refs arbitrary: logs h)
  case Nil
  then show ?case by simp
next
  case (Cons a refs)
  then obtain log rest where logs: "logs = log # rest" and a: "entryOf h a = Some log"
    and r: "map (entryOf h) refs = map Some rest" by (cases logs) auto
  let ?c = "PartialCell (selectFields fs log [])"
  from r have "map (entryOf (h @ [?c])) refs = map Some rest" by (rule entries_append)
  from Cons.IH [OF this] obtain objs t
    where m: "mapArray fs refs (h @ [?c]) = Inr (objs, (h @ [?c]) @ t)"
      and p: "map (propsOf ((h @ [?c]) @ t)) objs
                = map Some (map (\<lambda>log. selectFields fs log []) rest)" by blast
  have "mapArray fs (a # refs) h = Inr (length h # objs, h @ (?c # t))"
    using a m by (simp add: entryOf_Some assignFields_new)
  moreover have "map (propsOf (h @ (?c # t))) (length h # objs)
      = map Some (map (\<lambda>log. selectFields fs log []) logs)"
    using p by (simp add: logs propsOf_def cellAt_new)
  ultimately show ?case by blast
qed


lemma propsOf_append: "propsOf h a = Some ps \<Longrightarrow> propsOf (h @ t) a = Some ps"
  by (auto simp: propsOf_def cellAt_def nth_append split: if_splits)

lemma props_append:
  "map (propsOf h) objs = map Some pss \<Longrightarrow> map (propsOf (h @ t)) objs = map Some pss"
  by (induction objs arbitrary: pss) (auto simp: propsOf_append)

lemma arrayContent_new:
  "map (propsOf h) objs = map Some pss \<Longrightarrow>
   arrayContent (h @ [ArrayCell objs]) (length h) = Some pss"
  using props_append [of h objs pss "[ArrayCell objs]"]
  by (simp add: arrayContent_def cellAt_new those_eq_Some)

text \<open>\<open>filterLogs\<close> on the store: what it returns, and what it leaves.\<close>

lemma filterLogsStore_result:
  assumes "bufferOf h b = Some (logBuffer s)"
  shows "\<exists>r t. filterLogsStore date options b h = Inr (r, h @ t)
     \<and> arrayContent (h @ t) r = Some (render (filterLogs date options s))"
proof -
  define n where "n = (case count options of None \<Rightarrow> 100 | Some c \<Rightarrow> c)"
  define matching where "matching = filter (logMatches date options) (logBuffer s)"
  from assms obtain refs where b: "cellAt h b = Some (ArrayCell refs)"
    and "those (map (entryOf h) refs) = Some (logBuffer s)"
    unfolding bufferOf_def by (cases "cellAt h b") (auto split: cell.splits)
  then have refs: "map (entryOf h) refs = map Some (logBuffer s)"
    by (simp only: those_eq_Some)
  from filterArray_entries [OF refs] obtain kept
    where k: "filterArray date options h refs = Inr kept"
      and ke: "map (entryOf h) kept = map Some matching"
    unfolding matching_def by blast
  define sliced where "sliced = js_slice (- n) kept"
  define h1 where "h1 = h @ [ArrayCell kept]"
  define h2 where "h2 = h1 @ [ArrayCell sliced]"
  have f: "arrayFilter date options b h = Inr (length h, h1)"
    using b k by (simp add: arrayFilter_def new_cell_def h1_def)
  have sl: "arraySlice (- n) (length h) h1 = Inr (length h1, h2)"
    by (simp add: arraySlice_def new_cell_def cellAt_new h1_def h2_def sliced_def)
  have "map (entryOf h) sliced = map Some (js_slice (- n) matching)"
    unfolding sliced_def using ke by (simp only: js_slice_map [symmetric])
  then have se: "map (entryOf h1) sliced = map Some (js_slice (- n) matching)"
    unfolding h1_def by (rule entries_append)
  have h2: "h2 = h @ [ArrayCell kept, ArrayCell sliced]" by (simp add: h2_def h1_def)
  have pure: "filterLogs date options s =
      (case fields_opt options of
         None \<Rightarrow> Entries (js_slice (- n) matching)
       | Some fs \<Rightarrow>
           if fs \<noteq> [] then Projected (map (\<lambda>log. selectFields fs log []) (js_slice (- n) matching))
           else Entries (js_slice (- n) matching))"
    unfolding filterLogs_def Let_def n_def matching_def by (rule refl)
  have plain: "arrayContent h2 (length h1) = Some (render (Entries (js_slice (- n) matching)))"
    unfolding h2_def using entries_props [OF se] by (simp add: arrayContent_new)
  show ?thesis
  proof (cases "fields_opt options")
    case None
    then have "filterLogsStore date options b h = Inr (length h1, h2)"
      by (simp add: filterLogsStore_def f sl n_def [symmetric])
    with plain None pure h2 show ?thesis by auto
  next
    case (Some fs)
    show ?thesis
    proof (cases "fs = []")
      case True
      with Some have "filterLogsStore date options b h = Inr (length h1, h2)"
        by (simp add: filterLogsStore_def f sl n_def [symmetric])
      with plain Some True pure h2 show ?thesis by auto
    next
      case False
      have "map (entryOf h2) sliced = map Some (js_slice (- n) matching)"
        unfolding h2_def using se by (rule entries_append)
      from mapArray_entries [OF this, of fs] obtain objs t
        where m: "mapArray fs sliced h2 = Inr (objs, h2 @ t)"
          and p: "map (propsOf (h2 @ t)) objs
                = map Some (map (\<lambda>log. selectFields fs log []) (js_slice (- n) matching))"
        by blast
      have at: "cellAt h2 (length h1) = Some (ArrayCell sliced)"
        by (simp add: h2_def cellAt_new)
      have "arrayMap fs (length h1) h2 = Inr (length (h2 @ t), (h2 @ t) @ [ArrayCell objs])"
        using m by (simp add: arrayMap_def at new_cell_def)
      with Some False
      have 1: "filterLogsStore date options b h
                 = Inr (length (h2 @ t), (h2 @ t) @ [ArrayCell objs])"
        by (simp add: filterLogsStore_def f sl n_def [symmetric])
      have 2: "arrayContent ((h2 @ t) @ [ArrayCell objs]) (length (h2 @ t))
                 = Some (render (filterLogs date options s))"
        using arrayContent_new [OF p] Some False by (simp add: pure)
      have "(h2 @ t) @ [ArrayCell objs] = h @ ([ArrayCell kept, ArrayCell sliced] @ t @ [ArrayCell objs])"
        by (simp add: h2)
      with 1 2 show ?thesis by metis
    qed
  qed
qed

text \<open>Every log buffer is held by a store.\<close>

lemma bufferOf_storeOf: "bufferOf (storeOf logs) (length logs) = Some logs"
proof -
  have "map (entryOf (map EntryCell logs @ t)) [0..<length logs] = map Some logs" for t
    by (rule nth_equalityI) (simp_all add: entryOf_def cellAt_def nth_append)
  then show ?thesis
    by (simp add: bufferOf_def storeOf_def cellAt_def nth_append those_eq_Some)
qed

text \<open>
  C8. \<^verbatim>\<open>filterLogs\<close> is a pure read. Whatever the options, on a store that holds the log
  buffer at the address \<open>b\<close> the method returns, and the store after the call is the
  store before it followed by new cells: no cell that existed is written, so the log
  buffer and its entries are what they were. The returned array reads as the value
  of \<^const>\<open>filterLogs\<close> on the buffer. Called again on the store that the first call
  left, with the same options, it returns an array that reads the same.
\<close>

theorem get_logs_pure_read:
  assumes "bufferOf h b = Some (logBuffer s)"
  shows "\<exists>r t. filterLogsStore date options b h = Inr (r, h @ t)
     \<and> bufferOf (h @ t) b = Some (logBuffer s)
     \<and> arrayContent (h @ t) r = Some (render (filterLogs date options s))
     \<and> (\<exists>r' t'. filterLogsStore date options b (h @ t) = Inr (r', (h @ t) @ t')
           \<and> bufferOf ((h @ t) @ t') b = Some (logBuffer s)
           \<and> arrayContent ((h @ t) @ t') r' = arrayContent (h @ t) r)"
proof -
  from filterLogsStore_result [OF assms, of date options] obtain r t
    where 1: "filterLogsStore date options b h = Inr (r, h @ t)"
      and 2: "arrayContent (h @ t) r = Some (render (filterLogs date options s))" by blast
  have 3: "bufferOf (h @ t) b = Some (logBuffer s)" using assms by (rule bufferOf_append)
  from filterLogsStore_result [OF 3, of date options] obtain r' t'
    where 4: "filterLogsStore date options b (h @ t) = Inr (r', (h @ t) @ t')"
      and 5: "arrayContent ((h @ t) @ t') r' = Some (render (filterLogs date options s))" by blast
  have 6: "bufferOf ((h @ t) @ t') b = Some (logBuffer s)" using 3 by (rule bufferOf_append)
  from 1 2 3 4 5 6 show ?thesis by (metis (no_types))
qed

text \<open>
  A store with two entries: the call with a message filter and the field \<^verbatim>\<open>message\<close>
  appends four cells (the filtered array, its slice, one new object, the mapped array).
\<close>

lemmas store_eval =
  filterLogsStore_def arrayFilter_def arraySlice_def arrayMap_def new_cell_def cellAt_def
  bufferOf_def entryOf_def arrayContent_def propsOf_def entryProps_def
  logMatches_def logField_def js_slice_def messageOnly_def noOptions_def sampleLog_def
  sampleStore_def filterLogs_def logFrames_def on_message_def handleLogMessage_def init_def
  Let_def

theorem get_logs_pure_read_witness:
  "bufferOf sampleStore 2
     = Some (logBuffer (run noDate (logFrames [sampleLog ''[UnityMCP] started'', sampleLog ''frame'']) init))
   \<and> filterLogsStore noDate messageOnly 2 sampleStore
     = Inr (6, sampleStore @ [ArrayCell [1], ArrayCell [1],
                              PartialCell [(''message'', ''frame'')], ArrayCell [5]])
   \<and> arrayContent (sampleStore @ [ArrayCell [1], ArrayCell [1],
                                  PartialCell [(''message'', ''frame'')], ArrayCell [5]]) 6
     = Some [[(''message'', ''frame'')]]
   \<and> render (filterLogs noDate messageOnly
        (run noDate (logFrames [sampleLog ''[UnityMCP] started'', sampleLog ''frame'']) init))
     = [[(''message'', ''frame'')]]"
proof -
  have a: "bufferOf sampleStore 2
     = Some (logBuffer (run noDate (logFrames [sampleLog ''[UnityMCP] started'', sampleLog ''frame'']) init))"
    by (simp add: store_eval)
  from get_logs_pure_read [OF a, of noDate messageOnly]
  show ?thesis by (simp add: store_eval nth_append)
qed


section \<open>Reading the editor state\<close>

text \<open>
  C9. With a Unity connection, \<^verbatim>\<open>get_editor_state\<close> with the format
  \<^verbatim>\<open>scripts only\<close> answers with the empty list when the project structure of the
  current editor state has no \<^verbatim>\<open>scripts\<close> category, as is the case for the initial
  editor state; the server is left as it was.
\<close>

theorem scripts_only_default:
  "unityConnection s = Some ws \<Longrightarrow>
   map_of (projectStructure (editorState s)) ''scripts'' = None \<Longrightarrow>
   callTool date (GetEditorState (Some ''scripts only'')) s
     = (Returned (EditorStateResponse (JArr [])), s)"
  by (simp add: callTool_def getEditorState_def validFormats_def or_default_def Let_def)

text \<open>The initial editor state, once a connection is there.\<close>

theorem scripts_only_default_witness:
  "unityConnection (on_connection 0 init) = Some 0
   \<and> editorState (on_connection 0 init) = initialEditorState
   \<and> map_of (projectStructure (editorState (on_connection 0 init))) ''scripts'' = None
   \<and> callTool noDate (GetEditorState (Some ''scripts only'')) (on_connection 0 init)
       = (Returned (EditorStateResponse (JArr [])), on_connection 0 init)"
proof -
  have a: "unityConnection (on_connection 0 init) = Some 0" by (simp add: on_connection_def)
  have b: "map_of (projectStructure (editorState (on_connection 0 init))) ''scripts'' = None"
    by (simp add: on_connection_def init_def initialEditorState_def)
  from scripts_only_default [OF a b, of noDate] show ?thesis
    using a b by (simp add: on_connection_def init_def)
qed

text \<open>
  In the initial state of the server there is no connection, and the call fails.
\<close>

theorem scripts_only_disconnected_counterexample:
  "map_of (projectStructure (editorState init)) ''scripts'' = None
   \<and> callTool noDate (GetEditorState (Some ''scripts only'')) init
       = (Returned (McpError InternalError notConnectedMessage), init)"
  by (simp add: callTool_def init_def initialEditorState_def)


section \<open>Snapshot updates\<close>

lemma filter_paths_typed:
  "list_all isString paths \<Longrightarrow> filter_paths paths = Inr (filter userPath paths)"
  by (induction paths rule: filter_paths.induct) simp_all

lemma filter_paths_untyped:
  "\<not> list_all isString paths \<Longrightarrow> filter_paths paths = Inl TypeError"
  by (induction paths rule: filter_paths.induct) (auto split: sum.splits)

lemma update_fresh: "k \<notin> fst ` set al \<Longrightarrow> AList.update k v al = al @ [(k, v)]"
  by (induction al) auto

lemma map_of_append_fresh: "k \<notin> fst ` set pre \<Longrightarrow> map_of (pre @ (k, v) # rest) k = Some v"
  by (induction pre) auto

lemma mirroredStructure_keys: "fst ` set (mirroredStructure es) \<subseteq> fst ` set es"
  by (induction es rule: mirroredStructure.induct) auto

text \<open>
  On the own properties of a value with distinct names, every array of which holds
  strings, the loop of the handler computes the mirrored structure.
\<close>

lemma filterProjectStructure_suffix:
  assumes "own_props ps = pre @ rest" and "distinct (map fst (own_props ps))"
    and "pathsAreStrings rest" and "fst ` set acc \<subseteq> fst ` set pre"
  shows "filterProjectStructure ps (map fst rest) acc = Inr (acc @ mirroredStructure rest)"
  using assms
proof (induction rest arbitrary: pre acc)
  case Nil
  then show ?case by simp
next
  case (Cons e rest)
  obtain k v where e: "e = (k, v)" by (cases e)
  from Cons.prems(1,2) e have fresh: "k \<notin> fst ` set pre" by auto
  have look: "map_of (own_props ps) k = Some v"
    unfolding Cons.prems(1) e by (rule map_of_append_fresh [OF fresh])
  have pre': "own_props ps = (pre @ [(k, v)]) @ rest" using Cons.prems(1) e by simp
  have typed: "pathsAreStrings rest" using Cons.prems(3) e by (cases v) simp_all
  show ?case
  proof (cases v)
    case (JArr paths)
    with Cons.prems(3) e have "list_all isString paths" by simp
    then have f: "filter_paths paths = Inr (filter userPath paths)" by (rule filter_paths_typed)
    show ?thesis
    proof (cases "k = ''__proto__''")
      case True
      have "fst ` set acc \<subseteq> fst ` set (pre @ [(k, v)])" using Cons.prems(4) by auto
      from Cons.IH [OF pre' Cons.prems(2) typed this] True show ?thesis
        by (simp add: e JArr look [unfolded True] f set_prop_def)
    next
      case False
      from fresh Cons.prems(4) have "k \<notin> fst ` set acc" by auto
      then have u: "set_prop k (JArr (filter userPath paths)) acc
                      = acc @ [(k, JArr (filter userPath paths))]"
        using False by (simp add: set_prop_def update_fresh)
      have "fst ` set (acc @ [(k, JArr (filter userPath paths))]) \<subseteq> fst ` set (pre @ [(k, v)])"
        using Cons.prems(4) by auto
      from Cons.IH [OF pre' Cons.prems(2) typed this] False show ?thesis
        by (simp add: e JArr look f u)
    qed
  next
    case JNull
    have "fst ` set acc \<subseteq> fst ` set (pre @ [(k, v)])" using Cons.prems(4) by auto
    from Cons.IH [OF pre' Cons.prems(2) typed this] show ?thesis by (simp add: e JNull look)
  next
    case (JBool b)
    have "fst ` set acc \<subseteq> fst ` set (pre @ [(k, v)])" using Cons.prems(4) by auto
    from Cons.IH [OF pre' Cons.prems(2) typed this] show ?thesis by (simp add: e JBool look)
  next
    case (JNum n)
    have "fst ` set acc \<subseteq> fst ` set (pre @ [(k, v)])" using Cons.prems(4) by auto
    from Cons.IH [OF pre' Cons.prems(2) typed this] show ?thesis by (simp add: e JNum look)
  next
    case (JStr x)
    have "fst ` set acc \<subseteq> fst ` set (pre @ [(k, v)])" using Cons.prems(4) by auto
    from Cons.IH [OF pre' Cons.prems(2) typed this] show ?thesis by (simp add: e JStr look)
  next
    case (JObj x)
    have "fst ` set acc \<subseteq> fst ` set (pre @ [(k, v)])" using Cons.prems(4) by auto
    from Cons.IH [OF pre' Cons.prems(2) typed this] show ?thesis by (simp add: e JObj look)
  qed
qed

lemma filterProjectStructure_typed:
  "distinct (map fst (own_props ps)) \<Longrightarrow> pathsAreStrings (own_props ps) \<Longrightarrow>
   filterProjectStructure ps (object_keys ps) [] = Inr (mirroredStructure (own_props ps))"
  using filterProjectStructure_suffix [of ps "[]" "own_props ps" "[]"]
  by (simp add: object_keys_def)

text \<open>With an array that holds something else than strings, the loop throws.\<close>

lemma filterProjectStructure_suffix_untyped:
  assumes "own_props ps = pre @ rest" and "distinct (map fst (own_props ps))"
    and "\<not> pathsAreStrings rest"
  shows "filterProjectStructure ps (map fst rest) acc = Inl TypeError"
  using assms
proof (induction rest arbitrary: pre acc)
  case Nil
  then show ?case by simp
next
  case (Cons e rest)
  obtain k v where e: "e = (k, v)" by (cases e)
  from Cons.prems(1,2) e have fresh: "k \<notin> fst ` set pre" by auto
  have look: "map_of (own_props ps) k = Some v"
    unfolding Cons.prems(1) e by (rule map_of_append_fresh [OF fresh])
  have pre': "own_props ps = (pre @ [(k, v)]) @ rest" using Cons.prems(1) e by simp
  show ?case
  proof (cases "\<exists>paths. v = JArr paths \<and> \<not> list_all isString paths")
    case True
    then obtain paths where "v = JArr paths" "\<not> list_all isString paths" by blast
    then show ?thesis by (simp add: e look filter_paths_untyped)
  next
    case False
    with Cons.prems(3) e have r: "\<not> pathsAreStrings rest" by (cases v) auto
    note ih = Cons.IH [OF pre' Cons.prems(2) r]
    show ?thesis
    proof (cases v)
      case (JArr paths)
      with False have "list_all isString paths" by simp
      then show ?thesis by (simp add: e JArr look filter_paths_typed ih)
    qed (simp_all add: e look ih)
  qed
qed

lemma filterProjectStructure_untyped:
  "distinct (map fst (own_props ps)) \<Longrightarrow> \<not> pathsAreStrings (own_props ps) \<Longrightarrow>
   filterProjectStructure ps (object_keys ps) [] = Inl TypeError"
  using filterProjectStructure_suffix_untyped [of ps "[]" "own_props ps" "[]"]
  by (simp add: object_keys_def)

lemma falsy_no_props: "\<not> truthy ps \<Longrightarrow> own_props ps = []"
  by (cases ps) simp_all

text \<open>Which frames are processed, and what the new editor state is.\<close>

lemma filteredData_typed:
  assumes "d \<noteq> JNull" and "distinct (map fst (structureEntries d))"
    and "pathsAreStrings (structureEntries d)"
  shows "filteredData d =
     Inr \<lparr>activeGameObjects = or_default (own_prop d ''activeGameObjects'') (JArr []),
          selectedObjects = or_default (own_prop d ''selectedObjects'') (JArr []),
          playModeState = or_default (own_prop d ''playModeState'') (JStr ''Stopped''),
          sceneHierarchy = or_default (own_prop d ''sceneHierarchy'') (JObj []),
          projectStructure = mirroredStructure (structureEntries d)\<rparr>"
proof (cases "own_prop d ''projectStructure''")
  case None
  with assms(1) show ?thesis
    by (simp add: filteredData_def get_prop_def structureEntries_def)
next
  case (Some ps)
  show ?thesis
  proof (cases "truthy ps")
    case True
    from assms(2,3) Some
    have "filterProjectStructure ps (object_keys ps) [] = Inr (mirroredStructure (own_props ps))"
      by (intro filterProjectStructure_typed) (simp_all add: structureEntries_def)
    with assms(1) Some True show ?thesis
      by (simp add: filteredData_def get_prop_def structureEntries_def)
  next
    case False
    with assms(1) Some falsy_no_props [OF False] show ?thesis
      by (simp add: filteredData_def get_prop_def structureEntries_def)
  qed
qed

lemma filteredData_untyped:
  assumes "d = JNull \<or> \<not> pathsAreStrings (structureEntries d)"
    and "distinct (map fst (structureEntries d))"
  shows "filteredData d = Inl TypeError"
proof (cases "d = JNull")
  case True
  then show ?thesis by (simp add: filteredData_def get_prop_def)
next
  case False
  with assms(1) have u: "\<not> pathsAreStrings (structureEntries d)" by simp
  then obtain ps where ps: "own_prop d ''projectStructure'' = Some ps"
    by (cases "own_prop d ''projectStructure''") (simp_all add: structureEntries_def)
  with u have u': "\<not> pathsAreStrings (own_props ps)" by (simp add: structureEntries_def)
  have t: "truthy ps" using u' falsy_no_props [of ps] by (cases "truthy ps") simp_all
  from assms(2) ps have "distinct (map fst (own_props ps))" by (simp add: structureEntries_def)
  from filterProjectStructure_untyped [OF this u'] False ps t show ?thesis
    by (simp add: filteredData_def get_prop_def)
qed

lemma mirroredStructure_fresh:
  "k \<notin> fst ` set es \<Longrightarrow> map_of (mirroredStructure es) k = None"
  using mirroredStructure_keys [of es] by (auto simp: map_of_eq_None_iff)

lemma mirroredStructure_array:
  "distinct (map fst es) \<Longrightarrow> (k, JArr paths) \<in> set es \<Longrightarrow> k \<noteq> ''__proto__'' \<Longrightarrow>
   map_of (mirroredStructure es) k = Some (JArr (filter userPath paths))"
  by (induction es rule: mirroredStructure.induct)
    (auto simp: mirroredStructure_fresh image_iff)

lemma mirroredStructure_other:
  "distinct (map fst es) \<Longrightarrow> (k, v) \<in> set es \<Longrightarrow> \<not> isArray v \<Longrightarrow>
   map_of (mirroredStructure es) k = None"
  by (induction es rule: mirroredStructure.induct)
    (auto simp: mirroredStructure_fresh image_iff)

lemma userPath_strings:
  "filter userPath (map JStr strs) = map JStr (filter (\<lambda>p. \<not> startsWith p ''Packages/'') strs)"
  by (induction strs) simp_all

lemma handle_editorState_typed:
  assumes "d \<noteq> JNull" and "distinct (map fst (structureEntries d))"
    and "pathsAreStrings (structureEntries d)"
  shows "handleUnityMessage (EditorStateMessage d) s =
     Inr (s\<lparr>editorState :=
       \<lparr>activeGameObjects = or_default (own_prop d ''activeGameObjects'') (JArr []),
        selectedObjects = or_default (own_prop d ''selectedObjects'') (JArr []),
        playModeState = or_default (own_prop d ''playModeState'') (JStr ''Stopped''),
        sceneHierarchy = or_default (own_prop d ''sceneHierarchy'') (JObj []),
        projectStructure = mirroredStructure (structureEntries d)\<rparr>\<rparr>)"
  by (simp add: filteredData_typed [OF assms])

lemma handle_editorState_untyped:
  assumes "d = JNull \<or> \<not> pathsAreStrings (structureEntries d)"
    and "distinct (map fst (structureEntries d))"
  shows "handleUnityMessage (EditorStateMessage d) s = Inl TypeError"
    and "on_message (EditorStateMessage d) s = s"
  by (simp_all add: on_message_def filteredData_untyped [OF assms])

text \<open>
  C6. An \<^verbatim>\<open>editorState\<close> frame whose payload is not \<^verbatim>\<open>null\<close> and whose categories that
  are arrays hold strings only is processed: the editor state is replaced by the state
  built from the frame alone (each state field of the frame, or its default), with the
  mirrored project structure. Every category list of the frame, unless it is named
  \<^verbatim>\<open>__proto__\<close>, is mirrored as the list of its paths that do not start with
  \<^verbatim>\<open>Packages/\<close>, in their order.
\<close>

theorem snapshot_update_strips_packages:
  assumes "d \<noteq> JNull" and "distinct (map fst (structureEntries d))"
    and "pathsAreStrings (structureEntries d)"
    and "(k, JArr (map JStr paths)) \<in> set (structureEntries d)" and "k \<noteq> ''__proto__''"
  shows "handleUnityMessage (EditorStateMessage d) s =
     Inr (s\<lparr>editorState :=
       \<lparr>activeGameObjects = or_default (own_prop d ''activeGameObjects'') (JArr []),
        selectedObjects = or_default (own_prop d ''selectedObjects'') (JArr []),
        playModeState = or_default (own_prop d ''playModeState'') (JStr ''Stopped''),
        sceneHierarchy = or_default (own_prop d ''sceneHierarchy'') (JObj []),
        projectStructure = mirroredStructure (structureEntries d)\<rparr>\<rparr>)
    \<and> projectStructure (editorState (on_message (EditorStateMessage d) s))
        = mirroredStructure (structureEntries d)
    \<and> map_of (projectStructure (editorState (on_message (EditorStateMessage d) s))) k
        = Some (JArr (map JStr (filter (\<lambda>p. \<not> startsWith p ''Packages/'') paths)))"
proof -
  note h = handle_editorState_typed [OF assms(1,2,3), of s]
  have "map_of (mirroredStructure (structureEntries d)) k
          = Some (JArr (filter userPath (map JStr paths)))"
    using assms(2,4,5) by (rule mirroredStructure_array)
  with h show ?thesis by (simp add: on_message_def userPath_strings)
qed

text \<open>
  C10. An \<^verbatim>\<open>editorState\<close> frame whose payload is not \<^verbatim>\<open>null\<close> and whose categories that
  are arrays hold strings only is processed, and then a state field that the frame does
  not have is stored as its default: the empty list for \<^verbatim>\<open>activeGameObjects\<close> and
  \<^verbatim>\<open>selectedObjects\<close>, \<^verbatim>\<open>Stopped\<close> for \<^verbatim>\<open>playModeState\<close>, the empty object for
  \<^verbatim>\<open>sceneHierarchy\<close>; and a category of the frame whose value is not an array is absent
  from the mirrored project structure.
\<close>

theorem snapshot_update_defaults:
  assumes "d \<noteq> JNull" and "distinct (map fst (structureEntries d))"
    and "pathsAreStrings (structureEntries d)"
  shows "handleUnityMessage (EditorStateMessage d) s = Inr (on_message (EditorStateMessage d) s)
    \<and> (own_prop d ''activeGameObjects'' = None \<longrightarrow>
         activeGameObjects (editorState (on_message (EditorStateMessage d) s)) = JArr [])
    \<and> (own_prop d ''selectedObjects'' = None \<longrightarrow>
         selectedObjects (editorState (on_message (EditorStateMessage d) s)) = JArr [])
    \<and> (own_prop d ''playModeState'' = None \<longrightarrow>
         playModeState (editorState (on_message (EditorStateMessage d) s)) = JStr ''Stopped'')
    \<and> (own_prop d ''sceneHierarchy'' = None \<longrightarrow>
         sceneHierarchy (editorState (on_message (EditorStateMessage d) s)) = JObj [])
    \<and> ((k, v) \<in> set (structureEntries d) \<and> \<not> isArray v \<longrightarrow>
         map_of (projectStructure (editorState (on_message (EditorStateMessage d) s))) k = None)"
proof -
  note h = handle_editorState_typed [OF assms, of s]
  have "map_of (mirroredStructure (structureEntries d)) k = None"
    if "(k, v) \<in> set (structureEntries d)" "\<not> isArray v"
    using assms(2) that by (rule mirroredStructure_other)
  with h show ?thesis by (simp add: on_message_def or_default_def)
qed

text \<open>
  A frame whose scripts have a path of a package: the path is gone, the others stay.
\<close>

lemmas frame_eval =
  filteredData_def get_prop_def object_keys_def set_prop_def or_default_def on_message_def
  init_def initialEditorState_def structureEntries_def

theorem snapshot_update_strips_packages_witness:
  "snapshotFrame \<noteq> JNull
   \<and> distinct (map fst (structureEntries snapshotFrame))
   \<and> pathsAreStrings (structureEntries snapshotFrame)
   \<and> ''scripts'' \<noteq> ''__proto__''
   \<and> on_message (EditorStateMessage snapshotFrame) init
       = init\<lparr>editorState :=
           \<lparr>activeGameObjects = JArr [], selectedObjects = JArr [],
            playModeState = JStr ''Playing'', sceneHierarchy = JObj [],
            projectStructure =
              [(''scripts'', JArr [JStr ''Assets/Scripts/Player.cs'', JStr ''Assets/Scripts/Enemy.cs'']),
               (''prefabs'', JArr [JStr ''Assets/Prefabs/Hero.prefab''])]\<rparr>\<rparr>
   \<and> map_of (projectStructure (editorState (on_message (EditorStateMessage snapshotFrame) init)))
        ''scripts''
       = Some (JArr [JStr ''Assets/Scripts/Player.cs'', JStr ''Assets/Scripts/Enemy.cs''])"
proof -
  have a: "snapshotFrame \<noteq> JNull" by (simp add: snapshotFrame_def)
  have b: "distinct (map fst (structureEntries snapshotFrame))"
    by (simp add: snapshotFrame_def structureEntries_def)
  have c: "pathsAreStrings (structureEntries snapshotFrame)"
    by (simp add: snapshotFrame_def structureEntries_def)
  have d: "(''scripts'', JArr (map JStr [''Packages/com.unity.ugui/Runtime/UI.cs'',
             ''Assets/Scripts/Player.cs'', ''Assets/Scripts/Enemy.cs'']))
           \<in> set (structureEntries snapshotFrame)"
    by (simp add: snapshotFrame_def structureEntries_def)
  have e: "''scripts'' \<noteq> ''__proto__''" by simp
  from snapshot_update_strips_packages [OF a b c d e, of init]
  have "handleUnityMessage (EditorStateMessage snapshotFrame) init =
     Inr (init\<lparr>editorState :=
       \<lparr>activeGameObjects = JArr [], selectedObjects = JArr [],
        playModeState = JStr ''Playing'', sceneHierarchy = JObj [],
        projectStructure =
          [(''scripts'', JArr [JStr ''Assets/Scripts/Player.cs'', JStr ''Assets/Scripts/Enemy.cs'']),
           (''prefabs'', JArr [JStr ''Assets/Prefabs/Hero.prefab''])]\<rparr>\<rparr>)"
    by (simp add: snapshotFrame_def structureEntries_def or_default_def)
  then show ?thesis using a b c by (simp add: on_message_def)
qed

text \<open>
  A frame with a number among its script paths is not processed: the handler throws,
  and the editor state stays what it was, with none of the frame's values. In the frame
  with a category named \<^verbatim>\<open>__proto__\<close>, that category is not mirrored.
\<close>

theorem snapshot_update_dropped_counterexample:
  "handleUnityMessage (EditorStateMessage mixedFrame) init = Inl TypeError
   \<and> on_message (EditorStateMessage mixedFrame) init = init
   \<and> own_prop mixedFrame ''activeGameObjects'' = Some (JArr [JStr ''Main Camera''])
   \<and> activeGameObjects (editorState (on_message (EditorStateMessage mixedFrame) init)) = JArr []
   \<and> projectStructure (editorState (on_message (EditorStateMessage mixedFrame) init)) = []
   \<and> projectStructure (editorState (on_message (EditorStateMessage protoFrame) init)) = []"
  by (simp add: mixedFrame_def protoFrame_def frame_eval)

text \<open>
  After a frame in play mode, a frame with a project structure only, one of whose
  categories is a number.
\<close>

theorem snapshot_update_defaults_witness:
  "sparseFrame \<noteq> JNull
   \<and> distinct (map fst (structureEntries sparseFrame))
   \<and> pathsAreStrings (structureEntries sparseFrame)
   \<and> own_prop sparseFrame ''activeGameObjects'' = None
   \<and> own_prop sparseFrame ''selectedObjects'' = None
   \<and> own_prop sparseFrame ''playModeState'' = None
   \<and> own_prop sparseFrame ''sceneHierarchy'' = None
   \<and> (''version'', JNum 3) \<in> set (structureEntries sparseFrame) \<and> \<not> isArray (JNum 3)
   \<and> editorState (on_message (EditorStateMessage sparseFrame)
        (on_message (EditorStateMessage snapshotFrame) init))
       = \<lparr>activeGameObjects = JArr [], selectedObjects = JArr [],
          playModeState = JStr ''Stopped'', sceneHierarchy = JObj [],
          projectStructure = [(''scripts'', JArr [JStr ''Assets/Scripts/Player.cs''])]\<rparr>
   \<and> map_of (projectStructure (editorState (on_message (EditorStateMessage sparseFrame)
        (on_message (EditorStateMessage snapshotFrame) init)))) ''version'' = None"
proof -
  have a: "sparseFrame \<noteq> JNull" by (simp add: sparseFrame_def)
  have b: "distinct (map fst (structureEntries sparseFrame))"
    by (simp add: sparseFrame_def structureEntries_def)
  have c: "pathsAreStrings (structureEntries sparseFrame)"
    by (simp add: sparseFrame_def structureEntries_def)
  from snapshot_update_defaults [OF a b c,
      of "on_message (EditorStateMessage snapshotFrame) init" "''version''" "JNum 3"]
  show ?thesis by (simp add: sparseFrame_def snapshotFrame_def frame_eval)
qed

text \<open>
  After a frame in play mode, the frame without \<^verbatim>\<open>playModeState\<close> and with a number
  among its script paths stores no default: the play mode stays \<^verbatim>\<open>Playing\<close>.
\<close>

theorem snapshot_update_no_default_counterexample:
  "own_prop mixedFrame ''playModeState'' = None
   \<and> playModeState (editorState (on_message (EditorStateMessage snapshotFrame) init))
       = JStr ''Playing''
   \<and> playModeState (editorState (on_message (EditorStateMessage mixedFrame)
        (on_message (EditorStateMessage snapshotFrame) init))) = JStr ''Playing''"
  by (simp add: mixedFrame_def snapshotFrame_def frame_eval)

end
